theory Spec2Isabelle
  imports Complex_Main "HOL-Library.Word" "HOL-Library.Multiset"
begin

unbundle bit_operations_syntax

section \<open>TinyLink: the link registry and redirect engine of index.js\<close>

text \<open>
  The development follows index.js of the repository: the two validation patterns
  \<open>URL_REGEX\<close> and \<open>CODE_REGEX\<close>, the helper \<open>generateRandomCode\<close>, the route handlers
  that read and write the \<open>link\<close> table through the Prisma client, and the order in
  which the routes are registered.

  A JavaScript string is modelled as a \<^typ>\<open>string\<close>; one \<^typ>\<open>char\<close> stands for one
  UTF-16 code unit below 0x100, so the character classes below list those of their
  members that lie in this range. Request fields are either absent or strings.
\<close>

subsection \<open>Regular expressions and \<open>RegExp.prototype.test\<close>\<close>

text \<open>
  Both patterns of index.js are anchored with \<open>^\<close> and \<open>$\<close>, carry neither the
  \<open>g\<close>, \<open>y\<close> nor the \<open>m\<close> flag and contain no capture that is read afterwards, so
  \<open>test\<close> answers whether the whole string belongs to the pattern. The matcher
  consumes the string one character at a time, rewriting the pattern to what may
  still follow.
\<close>

datatype rx = Never | Eps | Sym "char \<Rightarrow> bool" | Alt rx rx | Seq rx rx | Star rx

fun nullable :: "rx \<Rightarrow> bool" where
  "nullable Never = False"
| "nullable Eps = True"
| "nullable (Sym p) = False"
| "nullable (Alt r s) = (nullable r \<or> nullable s)"
| "nullable (Seq r s) = (nullable r \<and> nullable s)"
| "nullable (Star r) = True"

fun deriv :: "char \<Rightarrow> rx \<Rightarrow> rx" where
  "deriv c Never = Never"
| "deriv c Eps = Never"
| "deriv c (Sym p) = (if p c then Eps else Never)"
| "deriv c (Alt r s) = Alt (deriv c r) (deriv c s)"
| "deriv c (Seq r s) =
     (if nullable r then Alt (Seq (deriv c r) s) (deriv c s) else Seq (deriv c r) s)"
| "deriv c (Star r) = Seq (deriv c r) (Star r)"

fun rx_match :: "rx \<Rightarrow> string \<Rightarrow> bool" where
  "rx_match r [] = nullable r"
| "rx_match r (c # cs) = rx_match (deriv c r) cs"

text \<open>The quantifiers \<open>{n}\<close>, \<open>{0,n}\<close>, \<open>{n,m}\<close> and \<open>?\<close> written out.\<close>

fun rx_times :: "nat \<Rightarrow> rx \<Rightarrow> rx" where
  "rx_times 0 r = Eps"
| "rx_times (Suc n) r = Seq r (rx_times n r)"

fun rx_upto :: "nat \<Rightarrow> rx \<Rightarrow> rx" where
  "rx_upto 0 r = Eps"
| "rx_upto (Suc n) r = Alt (Seq r (rx_upto n r)) Eps"

definition rx_range :: "nat \<Rightarrow> nat \<Rightarrow> rx \<Rightarrow> rx" where
  "rx_range n m r = Seq (rx_times n r) (rx_upto (m - n) r)"

definition rx_opt :: "rx \<Rightarrow> rx" where
  "rx_opt r = Alt r Eps"

fun rx_seq :: "rx list \<Rightarrow> rx" where
  "rx_seq [] = Eps"
| "rx_seq (r # rs) = Seq r (rx_seq rs)"

subsection \<open>Character classes\<close>

definition in_range :: "char \<Rightarrow> char \<Rightarrow> char \<Rightarrow> bool" where
  "in_range lo hi c = ((of_char lo :: nat) \<le> of_char c \<and> (of_char c :: nat) \<le> of_char hi)"

text \<open>The class \<open>[A-Za-z0-9]\<close>.\<close>

definition alnum :: "char \<Rightarrow> bool" where
  "alnum c = (in_range CHR ''A'' CHR ''Z'' c \<or> in_range CHR ''a'' CHR ''z'' c
              \<or> in_range CHR ''0'' CHR ''9'' c)"

text \<open>
  The class \<open>\s\<close>: TAB, LF, VT, FF, CR, SPACE and NBSP (its members below 0x100).
\<close>

definition js_space :: "char \<Rightarrow> bool" where
  "js_space c = ((of_char c :: nat) \<in> {9, 10, 11, 12, 13, 32, 160})"

text \<open>The dot matches everything but a line terminator (LF and CR below 0x100).\<close>

definition js_dot :: "char \<Rightarrow> bool" where
  "js_dot c = ((of_char c :: nat) \<notin> {10, 13})"

text \<open>The class \<open>[^\s$.?#]\<close>.\<close>

definition url_first :: "char \<Rightarrow> bool" where
  "url_first c = (\<not> js_space c \<and> c \<notin> {CHR ''$'', CHR ''.'', CHR ''?'', CHR ''#''})"

text \<open>The class \<open>[^\s]\<close>.\<close>

definition non_space :: "char \<Rightarrow> bool" where
  "non_space c = (\<not> js_space c)"

text \<open>
  A literal character under the \<open>i\<close> flag: both sides are canonicalised by upper-casing,
  and a code unit outside ASCII never canonicalises to an ASCII one.
\<close>

definition ascii_upper :: "char \<Rightarrow> char" where
  "ascii_upper c = (if in_range CHR ''a'' CHR ''z'' c then char_of (of_char c - (32::nat)) else c)"

definition ci :: "char \<Rightarrow> rx" where
  "ci x = Sym (\<lambda>c. ascii_upper c = ascii_upper x)"

subsection \<open>The two patterns of index.js\<close>

text \<open>\<^verbatim>\<open>const URL_REGEX = /^https?:\/\/[^\s$.?#].[^\s]*$/i;\<close>\<close>

definition URL_REGEX :: rx where
  "URL_REGEX = rx_seq [ci CHR ''h'', ci CHR ''t'', ci CHR ''t'', ci CHR ''p'',
                       rx_opt (ci CHR ''s''), ci CHR '':'', ci CHR ''/'', ci CHR ''/'',
                       Sym url_first, Sym js_dot, Star (Sym non_space)]"

text \<open>\<^verbatim>\<open>const CODE_REGEX = /^[A-Za-z0-9]{6,8}$/;\<close>\<close>

definition CODE_REGEX :: rx where
  "CODE_REGEX = rx_range 6 8 (Sym alnum)"

text \<open>\<open>CODE_REGEX.test(s)\<close>, the check the specification calls \<open>validateCode\<close>.\<close>

definition validateCode :: "string \<Rightarrow> bool" where
  "validateCode s = rx_match CODE_REGEX s"

text \<open>\<open>URL_REGEX.test(s)\<close>.\<close>

definition url_test :: "string \<Rightarrow> bool" where
  "url_test s = rx_match URL_REGEX s"

subsection \<open>The words a pattern stands for\<close>

text \<open>
  The set of strings of a pattern, used to read the matcher's answer as a property of
  the string.
\<close>

definition joined :: "string set \<Rightarrow> string set \<Rightarrow> string set" where
  "joined A B = {u @ v | u v. u \<in> A \<and> v \<in> B}"

inductive_set iter :: "string set \<Rightarrow> string set" for A :: "string set" where
  iter_none: "[] \<in> iter A"
| iter_more: "u \<in> A \<Longrightarrow> v \<in> iter A \<Longrightarrow> u @ v \<in> iter A"

fun denotes :: "rx \<Rightarrow> string set" where
  "denotes Never = {}"
| "denotes Eps = {[]}"
| "denotes (Sym p) = {[c] | c. p c}"
| "denotes (Alt r s) = denotes r \<union> denotes s"
| "denotes (Seq r s) = joined (denotes r) (denotes s)"
| "denotes (Star r) = iter (denotes r)"

subsection \<open>\<open>generateRandomCode\<close>\<close>

text \<open>
  \<open>Buffer.prototype.toString('base64url')\<close>: the alphabet of RFC 4648, section 5, three
  bytes to four characters, no padding.
\<close>

definition b64url_alphabet :: string where
  "b64url_alphabet = ''ABCDEFGHIJKLMNOPQRSTUVWXYZabcdefghijklmnopqrstuvwxyz0123456789-_''"

definition b64_digit :: "8 word \<Rightarrow> char" where
  "b64_digit v = b64url_alphabet ! unat (v AND 63)"

fun base64url :: "8 word list \<Rightarrow> string" where
  "base64url (a # b # c # rest) =
     [b64_digit (drop_bit 2 a),
      b64_digit (push_bit 4 (a AND 3) OR drop_bit 4 b),
      b64_digit (push_bit 2 (b AND 15) OR drop_bit 6 c),
      b64_digit (c AND 63)] @ base64url rest"
| "base64url [a, b] =
     [b64_digit (drop_bit 2 a),
      b64_digit (push_bit 4 (a AND 3) OR drop_bit 4 b),
      b64_digit (push_bit 2 (b AND 15))]"
| "base64url [a] = [b64_digit (drop_bit 2 a), b64_digit (push_bit 4 (a AND 3))]"
| "base64url [] = []"

text \<open>
  What one call of \<open>generateRandomCode\<close> draws from its surroundings: the six bytes of
  \<open>crypto.randomBytes(6)\<close> and the number that \<open>Math.random()\<close> returns, a binary64
  number in [0, 1), given by its exact value.
\<close>

record draw =
  random_bytes :: "8 word list"
  math_random :: rat

text \<open>
  Arithmetic in binary64. \<open>binary_exponent x\<close> is the \<open>e\<close> with \<open>2^e \<le> x < 2^(e+1)\<close> for
  a positive \<open>x\<close>; a result of an operation is the exact result rounded to the nearest
  multiple of \<open>2^(e-52)\<close> (of \<open>2^-1074\<close> in the subnormal range), a tie going to the even
  multiple. Overflow does not arise for three times a number below 1.
\<close>

fun bit_length :: "nat \<Rightarrow> nat" where
  "bit_length n = (if n = 0 then 0 else Suc (bit_length (n div 2)))"

declare bit_length.simps [simp del]

definition pow2 :: "int \<Rightarrow> rat" where
  "pow2 k = (if 0 \<le> k then 2 ^ nat k else 1 / 2 ^ nat (- k))"

definition binary_exponent :: "rat \<Rightarrow> int" where
  "binary_exponent x =
     (if 1 \<le> x then int (bit_length (nat \<lfloor>x\<rfloor>)) - 1
      else - int (bit_length (nat (\<lceil>1 / x\<rceil> - 1))))"

definition round_half_even :: "rat \<Rightarrow> int" where
  "round_half_even q =
     (let n = \<lfloor>q\<rfloor>; r = q - of_int n
      in if r < 1 / 2 then n else if 1 / 2 < r then n + 1 else if even n then n else n + 1)"

definition binary64 :: "rat \<Rightarrow> rat" where
  "binary64 x =
     (if x = 0 then 0
      else let u = pow2 (max (binary_exponent \<bar>x\<bar> - 52) (- 1074))
           in sgn x * of_int (round_half_even (\<bar>x\<bar> / u)) * u)"

text \<open>
  \<^verbatim>\<open>
  function generateRandomCode() {
      const length = Math.floor(Math.random() * 3) + 6; // Random length 6, 7, or 8
      return crypto.randomBytes(6).toString('base64url').replace(/[-_]/g, '').slice(0, length);
  }\<close>
\<close>

definition generateRandomCode :: "draw \<Rightarrow> string" where
  "generateRandomCode d =
     (let len = nat \<lfloor>binary64 (math_random d * 3)\<rfloor> + 6
      in take len (filter (\<lambda>c. c \<noteq> CHR ''-'' \<and> c \<noteq> CHR ''_'') (base64url (random_bytes d))))"

subsection \<open>The Location header of \<open>res.redirect\<close>\<close>

text \<open>
  \<open>res.redirect(302, url)\<close> sets the header through \<open>res.location\<close>, which passes the
  address through \<open>encodeUrl\<close> of the package encodeurl. Its version 2.0, which Express
  has used since 4.21, reads
  \<^verbatim>\<open>
  var ENCODE_CHARS_REGEXP =
    /(?:[^\x21\x23-\x3B\x3D\x3F-\x5F\x61-\x7A\x7C\x7E]|%(?:[^0-9A-Fa-f]|[0-9A-Fa-f][^0-9A-Fa-f]|$))+/g
  function encodeUrl (url) {
    return String(url)
      .replace(UNMATCHED_SURROGATE_PAIR_REGEXP, UNMATCHED_SURROGATE_PAIR_REPLACE)
      .replace(ENCODE_CHARS_REGEXP, encodeURI)
  }\<close>
  (the result of version 1.0 differs only in that \<^verbatim>\<open>\ ^ |\<close> are escaped as well).
  Surrogates do not occur among code units below 0x100. Every maximal run of code units
  outside the class and of percent signs that do not start an escape (each taken
  together with the one or two code units that show it) is replaced by its
  \<open>encodeURI\<close>, which works code unit by code unit.
\<close>

definition hex_digit :: "nat \<Rightarrow> char" where
  "hex_digit n = ''0123456789ABCDEF'' ! (n mod 16)"

definition percent_byte :: "nat \<Rightarrow> string" where
  "percent_byte b = [CHR ''%'', hex_digit (b div 16), hex_digit b]"

definition is_hex :: "char \<Rightarrow> bool" where
  "is_hex c = (in_range CHR ''0'' CHR ''9'' c \<or> in_range CHR ''A'' CHR ''F'' c
               \<or> in_range CHR ''a'' CHR ''f'' c)"

text \<open>
  The code units \<open>encodeURI\<close> leaves alone: letters, digits and
  \<^verbatim>\<open>; / ? : @ & = + $ , - _ . ! ~ * ' ( ) #\<close>.
\<close>

definition uri_unescaped :: "char \<Rightarrow> bool" where
  "uri_unescaped c =
     (alnum c \<or>
      c \<in> {CHR '';'', CHR ''/'', CHR ''?'', CHR '':'', CHR ''@'', CHR ''&'', CHR ''='', CHR ''+'',
           CHR ''$'', CHR '','', CHR ''-'', CHR ''_'', CHR ''.'', CHR ''!'', CHR ''~'', CHR ''*'',
           CHR 0x27, CHR ''('', CHR '')'', CHR ''#''})"

text \<open>
  \<open>encodeURI\<close> of one code unit below 0x100: the UTF-8 bytes of the code point (one
  byte below 0x80, two from there on), each as a percent escape.
\<close>

definition encodeURI_unit :: "char \<Rightarrow> string" where
  "encodeURI_unit c =
     (if uri_unescaped c then [c]
      else if (of_char c :: nat) < 128 then percent_byte (of_char c)
      else percent_byte (192 + of_char c div 64) @ percent_byte (128 + of_char c mod 64))"

text \<open>The class \<^verbatim>\<open>[\x21\x23-\x3B\x3D\x3F-\x5F\x61-\x7A\x7C\x7E]\<close>.\<close>

definition url_code_unit :: "char \<Rightarrow> bool" where
  "url_code_unit c =
     (let n = (of_char c :: nat)
      in n = 0x21 \<or> (0x23 \<le> n \<and> n \<le> 0x3B) \<or> n = 0x3D \<or> (0x3F \<le> n \<and> n \<le> 0x5F)
         \<or> (0x61 \<le> n \<and> n \<le> 0x7A) \<or> n = 0x7C \<or> n = 0x7E)"

text \<open>
  The scan: a percent sign followed by two hexadecimal digits is an escape and stays;
  any other percent sign is replaced together with what shows that it starts no
  escape (nothing is replaced when the string ends after one hexadecimal digit).
\<close>

fun encodeUrl :: "string \<Rightarrow> string" where
  "encodeUrl [] = []"
| "encodeUrl (c # cs) =
     (if c = CHR ''%'' then
        (case cs of
           [] \<Rightarrow> ''%25''
         | x # xs \<Rightarrow>
             if \<not> is_hex x then ''%25'' @ encodeURI_unit x @ encodeUrl xs
             else
               (case xs of
                  [] \<Rightarrow> [c, x]
                | y # ys \<Rightarrow>
                    if \<not> is_hex y then ''%25'' @ [x] @ encodeURI_unit y @ encodeUrl ys
                    else c # x # y # encodeUrl ys))
      else if url_code_unit c then c # encodeUrl cs
      else encodeURI_unit c @ encodeUrl cs)"

declare encodeUrl.simps [simp del]

subsection \<open>The link table\<close>

type_synonym timestamp = nat

text \<open>
  Modelled from the spec: the Prisma schema of the \<open>Link\<close> model is not among the
  sources. The fields are those of section 3 of the specification and of the handlers:
  an identifier assigned at creation, the unique \<open>shortCode\<close>, \<open>createdAt\<close> set to the
  time of creation, \<open>lastClickedAt\<close> absent until the first redirect.
\<close>

record link =
  linkId :: nat
  shortCode :: string
  targetUrl :: string
  totalClicks :: int
  createdAt :: timestamp
  lastClickedAt :: "timestamp option"

record db =
  rows :: "link list"
  nextId :: nat

definition empty_db :: db where
  "empty_db = \<lparr>rows = [], nextId = 0\<rparr>"

text \<open>
  The error codes the handlers tell apart: P2002 (unique constraint failed), P2025
  (record to update or delete not found), and anything else. The store is taken to
  execute every statement it is sent, one statement at a time: the operations below
  raise the two errors that depend on the table, and the handlers keep their branch
  for any other.
\<close>

datatype prisma_error = P2002 | P2025 | PrismaOther

text \<open>\<open>prisma.link.findUnique({ where: { shortCode } })\<close>\<close>

definition findUnique :: "db \<Rightarrow> string \<Rightarrow> link option" where
  "findUnique d code = find (\<lambda>l. shortCode l = code) (rows d)"

text \<open>\<open>prisma.link.create({ data: { shortCode, targetUrl, totalClicks: 0 } })\<close>\<close>

definition prisma_create :: "db \<Rightarrow> string \<Rightarrow> string \<Rightarrow> timestamp \<Rightarrow> prisma_error + db \<times> link" where
  "prisma_create d code url t =
     (case findUnique d code of
        Some _ \<Rightarrow> Inl P2002
      | None \<Rightarrow>
          let l = \<lparr>linkId = nextId d, shortCode = code, targetUrl = url, totalClicks = 0,
                   createdAt = t, lastClickedAt = None\<rparr>
          in Inr (d\<lparr>rows := rows d @ [l], nextId := Suc (nextId d)\<rparr>, l))"

text \<open>
  \<open>prisma.link.findMany({ orderBy: { createdAt: 'desc' } })\<close>. The store leaves the
  order among rows of equal \<open>createdAt\<close> open; the model fixes one.
\<close>

definition findMany_createdAt_desc :: "db \<Rightarrow> link list" where
  "findMany_createdAt_desc d = rev (sort_key createdAt (rows d))"

text \<open>\<open>prisma.link.delete({ where: { shortCode: code } })\<close>\<close>

definition prisma_delete :: "db \<Rightarrow> string \<Rightarrow> prisma_error + db \<times> link" where
  "prisma_delete d code =
     (case findUnique d code of
        None \<Rightarrow> Inl P2025
      | Some l \<Rightarrow> Inr (d\<lparr>rows := filter (\<lambda>r. shortCode r \<noteq> code) (rows d)\<rparr>, l))"

text \<open>
  \<open>prisma.link.update({ where: { shortCode: code },
     data: { totalClicks: { increment: 1 }, lastClickedAt: new Date() } })\<close>:
  one statement of the store, which sets both columns of the row it finds.
\<close>

definition click :: "timestamp \<Rightarrow> link \<Rightarrow> link" where
  "click t l = l\<lparr>totalClicks := totalClicks l + 1, lastClickedAt := Some t\<rparr>"

definition prisma_update_click :: "db \<Rightarrow> string \<Rightarrow> timestamp \<Rightarrow> prisma_error + db \<times> link" where
  "prisma_update_click d code t =
     (case findUnique d code of
        None \<Rightarrow> Inl P2025
      | Some l \<Rightarrow>
          Inr (d\<lparr>rows := map (\<lambda>r. if shortCode r = code then click t r else r) (rows d)\<rparr>,
               click t l))"

subsection \<open>Requests and responses\<close>

text \<open>
  What a request reads from outside the table: the clock, and the draws of the calls
  of \<open>generateRandomCode\<close> it makes, numbered from 0.
\<close>

record env =
  now :: timestamp
  draws :: "nat \<Rightarrow> draw"

definition every_draw :: "draw \<Rightarrow> nat \<Rightarrow> draw" where
  "every_draw x i = x"

record create_body =
  body_targetUrl :: "string option"
  body_customCode :: "string option"

datatype payload =
    ErrorJson string
  | CreatedJson string link
  | LinksJson "link list"
  | LinkJson link
  | HealthJson bool string string
  | TextBody string
  | FileBody string
  | DefaultPage
  | NoBody

datatype response = Response nat payload | Redirect nat string

fun status :: "response \<Rightarrow> nat" where
  "status (Response n _) = n"
| "status (Redirect n _) = n"

definition invalid_target :: response where
  "invalid_target =
     Response 400 (ErrorJson ''Invalid or missing targetUrl. Must start with http:// or https://'')"

definition invalid_code :: response where
  "invalid_code =
     Response 400 (ErrorJson ''Invalid customCode. Must be 6 to 8 characters long and contain only alphanumeric characters (A-Z, a-z, 0-9).'')"

definition generation_exhausted :: response where
  "generation_exhausted =
     Response 500 (ErrorJson ''Failed to generate a unique short code. Please try again.'')"

definition code_conflict :: response where
  "code_conflict =
     Response 409 (ErrorJson ''Conflict: This short code already exists. Please choose a different one.'')"

definition redirect_not_found :: response where
  "redirect_not_found =
     Response 404 (TextBody ''Not Found: The requested short link does not exist or has been deleted.'')"

subsection \<open>POST /api/links\<close>

text \<open>
  The retry loop of the handler: \<open>i\<close> counts the calls of \<open>generateRandomCode\<close> made so
  far; the result is \<open>foundUnique\<close>, the variable \<open>shortCode\<close> and the number of
  calls of \<open>generateRandomCode\<close> made when the loop is left.
  \<^verbatim>\<open>
  let foundUnique = false;
  for (let i = 0; i < 5; i++) {
      shortCode = generateRandomCode();
      const existingLink = await prisma.link.findUnique({ where: { shortCode } });
      if (!existingLink) { foundUnique = true; break; }
  }\<close>
\<close>

function code_loop :: "db \<Rightarrow> (nat \<Rightarrow> draw) \<Rightarrow> nat \<Rightarrow> string option \<Rightarrow> bool \<times> string option \<times> nat" where
  "code_loop d rnd i sc =
     (if i < 5 then
        (let sc' = generateRandomCode (rnd i)
         in case findUnique d sc' of
              None \<Rightarrow> (True, Some sc', Suc i)
            | Some _ \<Rightarrow> code_loop d rnd (Suc i) (Some sc'))
      else (False, sc, i))"
  by pat_completeness auto
termination
  by (relation "measure (\<lambda>(d, rnd, i, sc). 5 - i)") auto

declare code_loop.simps [simp del]

text \<open>Part C of the handler: the insert and its \<open>catch\<close>.\<close>

definition save_link :: "db \<Rightarrow> 'a env_scheme \<Rightarrow> string \<Rightarrow> string \<Rightarrow> db \<times> response" where
  "save_link d e code url =
     (case prisma_create d code url (now e) of
        Inr (d', newLink) \<Rightarrow> (d', Response 201 (CreatedJson ''Link created successfully.'' newLink))
      | Inl P2002 \<Rightarrow> (d, code_conflict)
      | Inl _ \<Rightarrow> (d, Response 500 (ErrorJson ''Internal server error while creating the link.'')))"

text \<open>
  The \<open>else\<close> branch of part B followed by part C. A \<open>shortCode\<close> that is still
  undefined is refused by the client library before any statement reaches the store.
\<close>

definition generate_and_save :: "db \<Rightarrow> 'a env_scheme \<Rightarrow> string option \<Rightarrow> string \<Rightarrow> db \<times> response" where
  "generate_and_save d e customCode url =
     (case code_loop d (draws e) 0 customCode of
        (False, _, _) \<Rightarrow> (d, generation_exhausted)
      | (True, Some code, _) \<Rightarrow> save_link d e code url
      | (True, None, _) \<Rightarrow>
          (d, Response 500 (ErrorJson ''Internal server error while creating the link.'')))"

definition create_handler :: "db \<Rightarrow> 'a env_scheme \<Rightarrow> create_body \<Rightarrow> db \<times> response" where
  "create_handler d e b =
     (case body_targetUrl b of
        None \<Rightarrow> (d, invalid_target)
      | Some url \<Rightarrow>
          if url = [] \<or> \<not> url_test url then (d, invalid_target)
          else
            (case body_customCode b of
               None \<Rightarrow> generate_and_save d e None url
             | Some c \<Rightarrow>
                 if c \<noteq> [] then
                   (if \<not> validateCode c then (d, invalid_code) else save_link d e c url)
                 else generate_and_save d e (Some c) url))"

subsection \<open>The other handlers\<close>

text \<open>GET /api/links\<close>

definition list_handler :: "db \<Rightarrow> db \<times> response" where
  "list_handler d = (d, Response 200 (LinksJson (findMany_createdAt_desc d)))"

text \<open>GET /api/links/:code\<close>

definition get_handler :: "db \<Rightarrow> string \<Rightarrow> db \<times> response" where
  "get_handler d code =
     (case findUnique d code of
        None \<Rightarrow> (d, Response 404 (ErrorJson ''Link not found.''))
      | Some l \<Rightarrow> (d, Response 200 (LinkJson l)))"

text \<open>DELETE /api/links/:code\<close>

definition delete_handler :: "db \<Rightarrow> string \<Rightarrow> db \<times> response" where
  "delete_handler d code =
     (case prisma_delete d code of
        Inr (d', _) \<Rightarrow> (d', Response 204 NoBody)
      | Inl P2025 \<Rightarrow> (d, Response 404 (ErrorJson ''Link not found or already deleted.''))
      | Inl _ \<Rightarrow> (d, Response 500 (ErrorJson ''Internal server error while deleting the link.'')))"

text \<open>GET /:code\<close>

text \<open>
  The handler reads the clock (\<open>new Date()\<close>) and nothing else from outside; the
  location it answers with is the one \<open>res.redirect\<close> puts into the header.
\<close>

definition redirect_handler :: "db \<Rightarrow> timestamp \<Rightarrow> string \<Rightarrow> db \<times> response" where
  "redirect_handler d t code =
     (case prisma_update_click d code t of
        Inr (d', updatedLink) \<Rightarrow> (d', Redirect 302 (encodeUrl (targetUrl updatedLink)))
      | Inl P2025 \<Rightarrow> (d, redirect_not_found)
      | Inl _ \<Rightarrow> (d, Response 500 (TextBody ''Internal Server Error while processing link redirection.'')))"

subsection \<open>Routing\<close>

text \<open>
  index.js registers, in this order: \<open>express.static(publicPath)\<close>, \<open>express.json()\<close>,
  GET \<open>/\<close>, GET \<open>/code/:code\<close>, GET \<open>/healthz\<close>, POST and GET \<open>/api/links\<close>,
  GET and DELETE \<open>/api/links/:code\<close>, and last GET \<open>/:code\<close>. A request is answered
  by the first of them that takes it.

  What the first entries answer depends on the files under \<open>public/\<close>, which are not
  part of index.js. A request therefore also reads: \<open>static_answer\<close>, the answer of
  \<open>express.static\<close> to a GET for a path (written without its leading slash), \<open>None\<close>
  when it passes the request on; and \<open>root_page\<close>, the answer of
  \<open>res.sendFile(path.join(publicPath, 'index.html'))\<close>.
\<close>

record site = env +
  static_answer :: "string \<Rightarrow> response option"
  root_page :: response

definition nothing_served :: "string \<Rightarrow> response option" where
  "nothing_served p = None"

text \<open>GET /healthz\<close>

definition health_response :: response where
  "health_response =
     Response 200 (HealthJson True ''1.0'' ''TinyLink server is healthy and running.'')"

text \<open>
  Express matches a route path without regard to letter case (case sensitive routing
  is off unless enabled): the paths that the route \<open>/healthz\<close> takes.
\<close>

definition is_healthz :: "string \<Rightarrow> bool" where
  "is_healthz code = (map ascii_upper code = ''HEALTHZ'')"

text \<open>
  The requests of the registry. The path of each is written by the client with
  \<open>encodeURIComponent\<close> applied to the code, so that Express hands the handler the
  code itself as \<open>req.params.code\<close>: \<open>RedirectTo code\<close> is GET \<open>/\<close>\<open>code\<close>, \<open>GetLink code\<close>
  is GET \<open>/api/links/\<close>\<open>code\<close>, \<open>DeleteLink code\<close> is DELETE \<open>/api/links/\<close>\<open>code\<close>,
  \<open>ListLinks\<close> is GET \<open>/api/links\<close> and \<open>Create b\<close> is POST \<open>/api/links\<close> with the JSON
  body \<open>b\<close>. A parameter \<open>:code\<close> takes one non-empty path segment, and a route path
  also takes the path with a slash appended (strict routing is off).
\<close>

datatype request =
    Create create_body
  | ListLinks
  | GetLink string
  | DeleteLink string
  | RedirectTo string

text \<open>
  What is registered before \<open>/:code\<close> answers to GET \<open>/\<close>\<open>code\<close>; \<open>None\<close> when the
  request reaches \<open>/:code\<close>.
\<close>

definition before_redirect :: "site \<Rightarrow> string \<Rightarrow> response option" where
  "before_redirect e code =
     (case static_answer e code of
        Some r \<Rightarrow> Some r
      | None \<Rightarrow>
          if code = [] then Some (root_page e)
          else if is_healthz code then Some health_response
          else None)"

text \<open>
  \<open>express.static\<close> looks at GET requests only. DELETE \<open>/api/links/\<close> matches no route
  and gets the 404 page of Express.
\<close>

fun handle :: "db \<Rightarrow> site \<Rightarrow> request \<Rightarrow> db \<times> response" where
  "handle d e (Create b) = create_handler d e b"
| "handle d e ListLinks =
     (case static_answer e ''api/links'' of
        Some r \<Rightarrow> (d, r)
      | None \<Rightarrow> list_handler d)"
| "handle d e (GetLink code) =
     (case static_answer e (''api/links/'' @ code) of
        Some r \<Rightarrow> (d, r)
      | None \<Rightarrow> if code = [] then list_handler d else get_handler d code)"
| "handle d e (DeleteLink code) =
     (if code = [] then (d, Response 404 DefaultPage) else delete_handler d code)"
| "handle d e (RedirectTo code) =
     (case before_redirect e code of
        Some r \<Rightarrow> (d, r)
      | None \<Rightarrow> redirect_handler d (now e) code)"

text \<open>The tables the service can reach from the empty one.\<close>

inductive reachable :: "db \<Rightarrow> bool" where
  reach_empty: "reachable empty_db"
| reach_step: "reachable d \<Longrightarrow> reachable (fst (handle d e rq))"

subsection \<open>Requests in flight together\<close>

text \<open>
  The store executes one statement at a time. A handler is a sequence of statements
  with code of its own in between: each \<open>await\<close> hands one statement to the store and
  continues, from the statement's result, once the store has executed it. While it
  waits, statements of other requests may be executed. A task is what is left of a
  request: a next step, which may be a statement acting on the table, or the answer
  sent.
\<close>

datatype task = Step "db \<Rightarrow> db \<times> task" | Finished response

fun step_task :: "task \<Rightarrow> db \<Rightarrow> db \<times> task" where
  "step_task (Step f) d = f d"
| "step_task (Finished r) d = (d, Finished r)"

text \<open>The answer a task has sent, if it has finished.\<close>

fun answer :: "task \<Rightarrow> response option" where
  "answer (Finished r) = Some r"
| "answer (Step f) = None"

text \<open>
  A schedule names, step by step, the task that moves next; a name that is no task and
  a task that has finished leave everything as it is.
\<close>

fun run_schedule :: "nat list \<Rightarrow> db \<times> task list \<Rightarrow> db \<times> task list" where
  "run_schedule [] s = s"
| "run_schedule (i # sched) (d, ts) =
     (if i < length ts
      then (case step_task (ts ! i) d of (d', t') \<Rightarrow> run_schedule sched (d', ts[i := t']))
      else run_schedule sched (d, ts))"

text \<open>What is left of a handler whose last \<open>await\<close> is pending: it will answer \<open>r\<close>.\<close>

definition then_answer :: "response \<Rightarrow> task" where
  "then_answer r = Step (\<lambda>d. (d, Finished r))"

text \<open>
  The handler of GET /:code as a task. The clock is read while the statement is put
  together; the statement is the one \<open>prisma.link.update\<close>; after the \<open>await\<close> the
  handler answers from \<open>updatedLink\<close>, or from the error caught, without touching the
  table again.
\<close>

definition redirect_task :: "timestamp \<Rightarrow> string \<Rightarrow> task" where
  "redirect_task t code =
     Step (\<lambda>d. case prisma_update_click d code t of
        Inr (d', updatedLink) \<Rightarrow> (d', then_answer (Redirect 302 (encodeUrl (targetUrl updatedLink))))
      | Inl P2025 \<Rightarrow> (d, then_answer redirect_not_found)
      | Inl _ \<Rightarrow>
          (d, then_answer (Response 500
                 (TextBody ''Internal Server Error while processing link redirection.''))))"

text \<open>The request GET \<open>/\<close>\<open>code\<close> as a task: routing, then the handler.\<close>

definition redirect_request :: "site \<Rightarrow> string \<Rightarrow> task" where
  "redirect_request e code =
     (case before_redirect e code of
        Some r \<Rightarrow> Finished r
      | None \<Rightarrow> redirect_task (now e) code)"

text \<open>
  For comparison, the shape that section 5 of the specification rules out: the count
  is read with one statement and written back, one higher, with a second.
\<close>

definition two_round_trips :: "timestamp \<Rightarrow> string \<Rightarrow> task" where
  "two_round_trips t code =
     Step (\<lambda>d. case findUnique d code of
        None \<Rightarrow> (d, Finished redirect_not_found)
      | Some l \<Rightarrow>
          (d, Step (\<lambda>d'.
             (d'\<lparr>rows := map (\<lambda>r. if shortCode r = code
                                  then r\<lparr>totalClicks := totalClicks l + 1, lastClickedAt := Some t\<rparr>
                                  else r) (rows d')\<rparr>,
              Finished (Redirect 302 (encodeUrl (targetUrl l)))))))"

text \<open>
  How far a request of a burst has come when all of them are to be answered \<open>r\<close>:
  2 when it has been answered, 1 when its statement has been executed, 0 before.
\<close>

definition phase :: "response \<Rightarrow> task \<Rightarrow> nat" where
  "phase r t = (if t = Finished r then 2 else if t = then_answer r then 1 else 0)"

text \<open>
  What holds at every moment of a burst of requests GET \<open>/\<close>\<open>code\<close> on the record \<open>l\<close>:
  each request is at one of the three stages, and the record's count is its count
  before the burst plus the number of requests whose statement has been executed.
\<close>

definition burst_inv :: "string \<Rightarrow> link \<Rightarrow> site list \<Rightarrow> db \<times> task list \<Rightarrow> bool" where
  "burst_inv code l es s \<longleftrightarrow>
     length (snd s) = length es \<and>
     (\<forall>i<length es. snd s ! i = redirect_request (es ! i) code
                      \<or> snd s ! i = then_answer (Redirect 302 (encodeUrl (targetUrl l)))
                      \<or> snd s ! i = Finished (Redirect 302 (encodeUrl (targetUrl l)))) \<and>
     (\<exists>l'. findUnique (fst s) code = Some l' \<and> targetUrl l' = targetUrl l \<and>
        totalClicks l' = totalClicks l
          + int (length (filter (\<lambda>t. 0 < phase (Redirect 302 (encodeUrl (targetUrl l))) t) (snd s))))"

text \<open>
  What the constraints of the table amount to: identifiers and short codes are unique,
  every identifier in use lies below the next one to be assigned, and no click count
  is negative.
\<close>

definition well_formed :: "db \<Rightarrow> bool" where
  "well_formed d \<longleftrightarrow>
     distinct (map linkId (rows d)) \<and> distinct (map shortCode (rows d)) \<and>
     (\<forall>l\<in>set (rows d). linkId l < nextId d \<and> 0 \<le> totalClicks l)"

subsection \<open>Reading \<open>URL_REGEX\<close> as a shape\<close>

text \<open>
  What remains after the scheme: one character of \<open>[^\s$.?#]\<close>, one character the dot
  accepts, then characters of \<open>[^\s]\<close> only.
\<close>

fun url_rest :: "string \<Rightarrow> bool" where
  "url_rest (a # b # t) = (url_first a \<and> js_dot b \<and> list_all non_space t)"
| "url_rest _ = False"

text \<open>
  The rest with the dot replaced by the class of its neighbours: no whitespace
  anywhere after the scheme.
\<close>

fun strict_rest :: "string \<Rightarrow> bool" where
  "strict_rest (a # b # t) = (url_first a \<and> non_space b \<and> list_all non_space t)"
| "strict_rest _ = False"

definition strict_url_shape :: "string \<Rightarrow> bool" where
  "strict_url_shape s =
     ((map ascii_upper (take 7 s) = ''HTTP://'' \<and> strict_rest (drop 7 s))
      \<or> (map ascii_upper (take 8 s) = ''HTTPS://'' \<and> strict_rest (drop 8 s)))"

text \<open>The second code unit after the scheme is whitespace.\<close>

definition second_is_space :: "string \<Rightarrow> bool" where
  "second_is_space s =
     ((map ascii_upper (take 7 s) = ''HTTP://''
        \<and> (case drop 7 s of a # b # t \<Rightarrow> js_space b | _ \<Rightarrow> False))
      \<or> (map ascii_upper (take 8 s) = ''HTTPS://''
        \<and> (case drop 8 s of a # b # t \<Rightarrow> js_space b | _ \<Rightarrow> False)))"

text \<open>
  The URL syntax rule in the words of section 3 of the specification: an \<open>http://\<close> or
  \<open>https://\<close> prefix and no embedded whitespace.
\<close>

definition spec_url_rule :: "string \<Rightarrow> bool" where
  "spec_url_rule s =
     ((take 7 s = ''http://'' \<or> take 8 s = ''https://'') \<and> list_all (\<lambda>c. \<not> js_space c) s)"

subsection \<open>Example tables and surroundings\<close>

text \<open>The record of the end-to-end example of the specification, and a table holding it.\<close>

definition docs_link :: link where
  "docs_link = \<lparr>linkId = 0, shortCode = ''airocks7'', targetUrl = ''https://example.com/docs'',
                 totalClicks = 0, createdAt = 1000, lastClickedAt = None\<rparr>"

definition docs_db :: db where
  "docs_db = \<lparr>rows = [docs_link], nextId = 1\<rparr>"

text \<open>
  Surroundings in which every call of \<open>crypto.randomBytes(6)\<close> returns six zero bytes
  (base64url text \<open>AAAAAAAA\<close>), respectively six bytes ff (base64url text \<open>________\<close>).
\<close>

definition zero_env :: env where
  "zero_env = \<lparr>now = 2000, draws = every_draw \<lparr>random_bytes = [0, 0, 0, 0, 0, 0], math_random = 0\<rparr>\<rparr>"

definition ones_env :: env where
  "ones_env = \<lparr>now = 1000,
                draws = every_draw \<lparr>random_bytes = [255, 255, 255, 255, 255, 255], math_random = 0\<rparr>\<rparr>"

text \<open>Tables whose only record has the short code \<open>AAAAAA\<close>, \<open>ABCD\<close>, and the empty one.\<close>

definition taken_db :: db where
  "taken_db = \<lparr>rows = [\<lparr>linkId = 0, shortCode = ''AAAAAA'', targetUrl = ''https://example.com/docs'',
                 totalClicks = 0, createdAt = 1000, lastClickedAt = None\<rparr>], nextId = 1\<rparr>"

definition short_db :: db where
  "short_db = \<lparr>rows = [\<lparr>linkId = 0, shortCode = ''ABCD'', targetUrl = ''https://example.com/docs'',
                 totalClicks = 0, createdAt = 1000, lastClickedAt = None\<rparr>], nextId = 1\<rparr>"

definition blank_db :: db where
  "blank_db = \<lparr>rows = [\<lparr>linkId = 0, shortCode = [], targetUrl = ''https://example.com/docs'',
                 totalClicks = 0, createdAt = 1000, lastClickedAt = None\<rparr>], nextId = 1\<rparr>"

definition two_db :: db where
  "two_db = \<lparr>rows = [docs_link,
               \<lparr>linkId = 1, shortCode = ''AAAAAA'', targetUrl = ''https://www.google.com'',
                 totalClicks = 0, createdAt = 2000, lastClickedAt = None\<rparr>], nextId = 2\<rparr>"

text \<open>
  Surroundings of a request to which \<open>express.static\<close> has nothing to answer, and the
  tables left by creating the custom codes \<open>healthz\<close> and \<open>spaced1\<close> in them.
\<close>

definition zero_site :: site where
  "zero_site = \<lparr>now = 2000, draws = every_draw \<lparr>random_bytes = [0, 0, 0, 0, 0, 0], math_random = 0\<rparr>,
                 static_answer = nothing_served, root_page = Response 200 (FileBody ''index.html'')\<rparr>"

definition healthz_link :: link where
  "healthz_link = \<lparr>linkId = 0, shortCode = ''healthz'', targetUrl = ''https://example.com/docs'',
                    totalClicks = 0, createdAt = 2000, lastClickedAt = None\<rparr>"

definition healthz_db :: db where
  "healthz_db = \<lparr>rows = [healthz_link], nextId = 1\<rparr>"

definition spaced_link :: link where
  "spaced_link = \<lparr>linkId = 0, shortCode = ''spaced1'', targetUrl = ''http://a b'',
                   totalClicks = 0, createdAt = 2000, lastClickedAt = None\<rparr>"

definition spaced_db :: db where
  "spaced_db = \<lparr>rows = [spaced_link], nextId = 1\<rparr>"

section \<open>Properties\<close>

subsection \<open>The matcher decides membership\<close>

lemma nil_in_joined: "[] \<in> joined A B \<longleftrightarrow> [] \<in> A \<and> [] \<in> B"
  by (auto simp: joined_def)

lemma cons_in_joined:
  "c # w \<in> joined A B \<longleftrightarrow>
     (\<exists>u v. w = u @ v \<and> c # u \<in> A \<and> v \<in> B) \<or> ([] \<in> A \<and> c # w \<in> B)"
proof
  assume "c # w \<in> joined A B"
  then obtain u v where uv: "c # w = u @ v" "u \<in> A" "v \<in> B"
    by (auto simp: joined_def)
  show "(\<exists>u v. w = u @ v \<and> c # u \<in> A \<and> v \<in> B) \<or> ([] \<in> A \<and> c # w \<in> B)"
  proof (cases u)
    case Nil
    with uv show ?thesis by simp
  next
    case (Cons a u')
    with uv have "w = u' @ v" "c # u' \<in> A" by simp_all
    with uv show ?thesis by blast
  qed
next
  assume "(\<exists>u v. w = u @ v \<and> c # u \<in> A \<and> v \<in> B) \<or> ([] \<in> A \<and> c # w \<in> B)"
  then show "c # w \<in> joined A B"
  proof
    assume "\<exists>u v. w = u @ v \<and> c # u \<in> A \<and> v \<in> B"
    then obtain u v where "w = u @ v" "c # u \<in> A" "v \<in> B" by blast
    then have "c # w = (c # u) @ v" "c # u \<in> A" "v \<in> B" by simp_all
    then show ?thesis unfolding joined_def by blast
  next
    assume "[] \<in> A \<and> c # w \<in> B"
    then have "c # w = [] @ (c # w)" "[] \<in> A" "c # w \<in> B" by simp_all
    then show ?thesis unfolding joined_def by blast
  qed
qed

lemma iter_cons_split:
  assumes "x \<in> iter A" and "x = c # w"
  shows "\<exists>u v. w = u @ v \<and> c # u \<in> A \<and> v \<in> iter A"
  using assms
proof (induction rule: iter.induct)
  case iter_none
  then show ?case by simp
next
  case (iter_more u v)
  show ?case
  proof (cases u)
    case Nil
    with iter_more show ?thesis by simp
  next
    case (Cons a u')
    with iter_more have "w = u' @ v" "c # u' \<in> A" by simp_all
    with iter_more show ?thesis by blast
  qed
qed

lemma cons_in_iter:
  "c # w \<in> iter A \<longleftrightarrow> (\<exists>u v. w = u @ v \<and> c # u \<in> A \<and> v \<in> iter A)"
proof
  assume "c # w \<in> iter A"
  then show "\<exists>u v. w = u @ v \<and> c # u \<in> A \<and> v \<in> iter A"
    using iter_cons_split by blast
next
  assume "\<exists>u v. w = u @ v \<and> c # u \<in> A \<and> v \<in> iter A"
  then obtain u v where "w = u @ v" "c # u \<in> A" "v \<in> iter A" by blast
  then have "(c # u) @ v \<in> iter A" and "c # w = (c # u) @ v"
    using iter_more [of "c # u" A v] by simp_all
  then show "c # w \<in> iter A" by simp
qed

lemma nullable_denotes: "nullable r \<longleftrightarrow> [] \<in> denotes r"
  by (induction r) (auto simp: nil_in_joined intro: iter_none)

lemma in_joined: "w \<in> joined A B \<longleftrightarrow> (\<exists>u v. w = u @ v \<and> u \<in> A \<and> v \<in> B)"
  by (auto simp: joined_def)

lemma deriv_denotes: "w \<in> denotes (deriv c r) \<longleftrightarrow> c # w \<in> denotes r"
proof (induction r arbitrary: w)
  case (Seq r s)
  have left: "w \<in> joined (denotes (deriv c r)) (denotes s) \<longleftrightarrow>
      (\<exists>u v. w = u @ v \<and> c # u \<in> denotes r \<and> v \<in> denotes s)"
    by (simp add: in_joined Seq.IH(1))
  show ?case
    by (simp add: left Seq.IH(2) nullable_denotes cons_in_joined)
next
  case (Star r)
  have "w \<in> joined (denotes (deriv c r)) (iter (denotes r)) \<longleftrightarrow>
      (\<exists>u v. w = u @ v \<and> c # u \<in> denotes r \<and> v \<in> iter (denotes r))"
    by (simp add: in_joined Star.IH)
  then show ?case
    by (simp add: cons_in_iter)
qed auto

lemma rx_match_denotes: "rx_match r w \<longleftrightarrow> w \<in> denotes r"
  by (induction w arbitrary: r) (simp_all add: nullable_denotes deriv_denotes)

subsection \<open>Repetitions of a character class\<close>

lemma sym_joined:
  "w \<in> joined (denotes (Sym p)) B \<longleftrightarrow> (\<exists>c v. w = c # v \<and> p c \<and> v \<in> B)"
proof
  assume "w \<in> joined (denotes (Sym p)) B"
  then show "\<exists>c v. w = c # v \<and> p c \<and> v \<in> B"
    by (auto simp: in_joined)
next
  assume "\<exists>c v. w = c # v \<and> p c \<and> v \<in> B"
  then obtain c v where "w = [c] @ v" "[c] \<in> denotes (Sym p)" "v \<in> B"
    by auto
  then show "w \<in> joined (denotes (Sym p)) B"
    unfolding in_joined by blast
qed

lemma times_sym:
  "w \<in> denotes (rx_times n (Sym p)) \<longleftrightarrow> length w = n \<and> (\<forall>c\<in>set w. p c)"
proof (induction n arbitrary: w)
  case 0
  then show ?case by auto
next
  case (Suc n)
  have "w \<in> denotes (rx_times (Suc n) (Sym p)) \<longleftrightarrow>
          (\<exists>c v. w = c # v \<and> p c \<and> length v = n \<and> (\<forall>x\<in>set v. p x))"
    using Suc.IH by (simp only: rx_times.simps denotes.simps(5) sym_joined)
  also have "\<dots> \<longleftrightarrow> length w = Suc n \<and> (\<forall>c\<in>set w. p c)"
    by (cases w) auto
  finally show ?case .
qed

lemma upto_sym:
  "w \<in> denotes (rx_upto n (Sym p)) \<longleftrightarrow> length w \<le> n \<and> (\<forall>c\<in>set w. p c)"
proof (induction n arbitrary: w)
  case 0
  then show ?case by auto
next
  case (Suc n)
  have "w \<in> denotes (rx_upto (Suc n) (Sym p)) \<longleftrightarrow>
          (\<exists>c v. w = c # v \<and> p c \<and> length v \<le> n \<and> (\<forall>x\<in>set v. p x)) \<or> w = []"
    using Suc.IH by (simp only: rx_upto.simps denotes.simps(2,4,5) sym_joined Un_iff singleton_iff)
  also have "\<dots> \<longleftrightarrow> length w \<le> Suc n \<and> (\<forall>c\<in>set w. p c)"
    by (cases w) auto
  finally show ?case .
qed

lemma range_sym:
  assumes "n \<le> m"
  shows "rx_match (rx_range n m (Sym p)) w \<longleftrightarrow> n \<le> length w \<and> length w \<le> m \<and> (\<forall>c\<in>set w. p c)"
proof -
  have "rx_match (rx_range n m (Sym p)) w \<longleftrightarrow>
          (\<exists>u v. w = u @ v \<and> (length u = n \<and> (\<forall>c\<in>set u. p c)) \<and> (length v \<le> m - n \<and> (\<forall>c\<in>set v. p c)))"
    by (simp only: rx_match_denotes rx_range_def denotes.simps(5) in_joined times_sym upto_sym)
  also have "\<dots> \<longleftrightarrow> n \<le> length w \<and> length w \<le> m \<and> (\<forall>c\<in>set w. p c)"
  proof
    assume "\<exists>u v. w = u @ v \<and> (length u = n \<and> (\<forall>c\<in>set u. p c)) \<and> (length v \<le> m - n \<and> (\<forall>c\<in>set v. p c))"
    then show "n \<le> length w \<and> length w \<le> m \<and> (\<forall>c\<in>set w. p c)"
      using assms by auto
  next
    assume r: "n \<le> length w \<and> length w \<le> m \<and> (\<forall>c\<in>set w. p c)"
    have "w = take n w @ drop n w" by simp
    moreover have "length (take n w) = n" using r by simp
    moreover have "\<forall>c\<in>set (take n w). p c" using r by (meson in_set_takeD)
    moreover have "length (drop n w) \<le> m - n" using r by (simp add: diff_le_mono)
    moreover have "\<forall>c\<in>set (drop n w). p c" using r by (meson in_set_dropD)
    ultimately show "\<exists>u v. w = u @ v \<and> (length u = n \<and> (\<forall>c\<in>set u. p c)) \<and> (length v \<le> m - n \<and> (\<forall>c\<in>set v. p c))"
      by blast
  qed
  finally show ?thesis .
qed

subsection \<open>The short-code pattern\<close>

text \<open>
  Claim C6. \<open>CODE_REGEX.test(s)\<close> is true exactly when \<open>s\<close> has 6, 7 or 8 characters
  and every one of them lies in \<open>[A-Za-z0-9]\<close>; any other character, or any other
  length, makes it false.
\<close>

theorem validateCode_iff:
  "validateCode s \<longleftrightarrow> 6 \<le> length s \<and> length s \<le> 8 \<and> (\<forall>c\<in>set s. alnum c)"
  unfolding validateCode_def CODE_REGEX_def by (rule range_sym) simp

theorem validateCode_iff_witness:
  "validateCode ''airocks7'' \<and> \<not> validateCode ''invalid!'' \<and> \<not> validateCode ''abc12''
   \<and> \<not> validateCode ''abcdefgh9''"
  using validateCode_iff [of "''airocks7''"] validateCode_iff [of "''invalid!''"]
    validateCode_iff [of "''abc12''"] validateCode_iff [of "''abcdefgh9''"]
  by (simp add: alnum_def in_range_def)

subsection \<open>The code generator\<close>

text \<open>
  Claim C3. The generator is to return 6 to 8 alphanumeric characters, and a creation
  without custom code is to answer with a short code matching \<open>[A-Za-z0-9]{6,8}\<close>.
  When \<open>crypto.randomBytes(6)\<close> yields ff ff ff 00 10 83, its base64url text is
  \<open>____ABCD\<close>; removing the four underscores leaves \<open>ABCD\<close>, which \<open>slice\<close> cannot
  lengthen. The generator returns four characters, the pattern rejects them, and the
  creation stores them and answers 201.
\<close>

theorem generateRandomCode_too_short:
  "generateRandomCode \<lparr>random_bytes = [255, 255, 255, 0, 16, 131], math_random = 1 / 2\<rparr> = ''ABCD''
   \<and> \<not> validateCode ''ABCD''
   \<and> create_handler empty_db
        \<lparr>now = 1000, draws = every_draw \<lparr>random_bytes = [255, 255, 255, 0, 16, 131], math_random = 1 / 2\<rparr>\<rparr>
        \<lparr>body_targetUrl = Some ''https://example.com/docs'', body_customCode = None\<rparr>
     = (\<lparr>rows = [\<lparr>linkId = 0, shortCode = ''ABCD'', targetUrl = ''https://example.com/docs'',
                    totalClicks = 0, createdAt = 1000, lastClickedAt = None\<rparr>],
          nextId = 1\<rparr>,
        Response 201 (CreatedJson ''Link created successfully.''
          \<lparr>linkId = 0, shortCode = ''ABCD'', targetUrl = ''https://example.com/docs'',
           totalClicks = 0, createdAt = 1000, lastClickedAt = None\<rparr>))"
  by code_simp

subsection \<open>Looking up and clicking a record\<close>

lemma findUnique_None: "findUnique d code = None \<longleftrightarrow> code \<notin> shortCode ` set (rows d)"
  by (auto simp: findUnique_def find_None_iff)

lemma findUnique_Some: "findUnique d code = Some l \<Longrightarrow> l \<in> set (rows d) \<and> shortCode l = code"
  by (auto simp: findUnique_def find_Some_iff)

lemma find_map_click:
  "find (\<lambda>l. shortCode l = code) (map (\<lambda>r. if shortCode r = c then click t r else r) xs)
   = map_option (\<lambda>r. if shortCode r = c then click t r else r) (find (\<lambda>l. shortCode l = code) xs)"
  by (induction xs) (auto simp: click_def)

lemma findUnique_after_click:
  "findUnique (d\<lparr>rows := map (\<lambda>r. if shortCode r = c then click t r else r) (rows d)\<rparr>) code
   = map_option (\<lambda>r. if shortCode r = c then click t r else r) (findUnique d code)"
  by (simp add: findUnique_def find_map_click)

lemma redirect_found:
  assumes "findUnique d code = Some l"
  shows "redirect_handler d t code =
     (d\<lparr>rows := map (\<lambda>r. if shortCode r = code then click t r else r) (rows d)\<rparr>,
      Redirect 302 (encodeUrl (targetUrl l)))"
  using assms by (simp add: redirect_handler_def prisma_update_click_def click_def)

lemma redirect_missing:
  assumes "findUnique d code = None"
  shows "redirect_handler d t code = (d, redirect_not_found)"
  using assms by (simp add: redirect_handler_def prisma_update_click_def)

subsection \<open>The location sent\<close>

lemma encodeURI_unit_unescaped: "uri_unescaped c \<Longrightarrow> encodeURI_unit c = [c]"
  by (simp add: encodeURI_unit_def)

lemma percent_escaped: "\<not> uri_unescaped CHR ''%''"
  by (simp add: uri_unescaped_def alnum_def in_range_def)

lemma encodeUrl_unescaped:
  "\<forall>c\<in>set s. uri_unescaped c \<Longrightarrow> encodeUrl s = s"
proof (induction s)
  case Nil
  then show ?case by (simp add: encodeUrl.simps)
next
  case (Cons c s)
  then have "c \<noteq> CHR ''%''" using percent_escaped by auto
  then show ?case using Cons by (simp add: encodeUrl.simps encodeURI_unit_unescaped)
qed

subsection \<open>GET /:code\<close>

lemma before_redirect_None:
  "before_redirect e code = None \<longleftrightarrow>
     static_answer e code = None \<and> code \<noteq> [] \<and> \<not> is_healthz code"
  by (simp add: before_redirect_def split: option.splits)

lemma handle_redirect_route:
  assumes "static_answer e code = None" "code \<noteq> []" "\<not> is_healthz code"
  shows "handle d e (RedirectTo code) = redirect_handler d (now e) code"
  using assms by (simp add: before_redirect_def)

lemma zero_site_plain:
  "static_answer zero_site code = None" "now zero_site = 2000"
  by (simp_all add: zero_site_def nothing_served_def)

text \<open>
  Claim C1, as amended. Take a request GET \<open>/\<close>\<open>code\<close> that reaches the route \<open>/:code\<close>:
  \<open>express.static\<close> passes it on, \<open>code\<close> is not empty and is not \<open>healthz\<close> in any
  letter case. If a record with that code exists, the request answers 302 with the
  location that \<open>res.redirect\<close> derives from the record's \<open>targetUrl\<close>, which is the
  \<open>targetUrl\<close> itself when it consists of characters \<open>encodeURI\<close> leaves alone; and in
  the same single transition of the table it adds exactly 1 to the record's
  \<open>totalClicks\<close> and sets its \<open>lastClickedAt\<close> to the current time, while the records of
  all other codes, the identifiers in the table and the next identifier stay as they
  were. If no record with that code exists, it answers 404 and the table is unchanged.
\<close>

theorem redirect_route_spec:
  assumes "static_answer e code = None" and "code \<noteq> []" and "\<not> is_healthz code"
  shows "(findUnique d code = Some l \<longrightarrow>
      snd (handle d e (RedirectTo code)) = Redirect 302 (encodeUrl (targetUrl l))
      \<and> ((\<forall>c\<in>set (targetUrl l). uri_unescaped c) \<longrightarrow> encodeUrl (targetUrl l) = targetUrl l)
      \<and> findUnique (fst (handle d e (RedirectTo code))) code
          = Some (l\<lparr>totalClicks := totalClicks l + 1, lastClickedAt := Some (now e)\<rparr>)
      \<and> (\<forall>c. c \<noteq> code \<longrightarrow> findUnique (fst (handle d e (RedirectTo code))) c = findUnique d c)
      \<and> map linkId (rows (fst (handle d e (RedirectTo code)))) = map linkId (rows d)
      \<and> nextId (fst (handle d e (RedirectTo code))) = nextId d)
   \<and> (findUnique d code = None \<longrightarrow>
        handle d e (RedirectTo code) = (d, redirect_not_found) \<and> status redirect_not_found = 404)"
proof (intro conjI impI)
  note h = handle_redirect_route [OF assms, of d]
  {
    assume f: "findUnique d code = Some l"
    note r = redirect_found [OF f, of "now e"]
    have sc: "shortCode l = code" using f by (simp add: findUnique_Some)
    show "snd (handle d e (RedirectTo code)) = Redirect 302 (encodeUrl (targetUrl l))"
      by (simp only: h r snd_conv)
    show "findUnique (fst (handle d e (RedirectTo code))) code
            = Some (l\<lparr>totalClicks := totalClicks l + 1, lastClickedAt := Some (now e)\<rparr>)"
      by (simp only: h r fst_conv) (simp add: findUnique_after_click f sc click_def)
    show "\<forall>c. c \<noteq> code \<longrightarrow> findUnique (fst (handle d e (RedirectTo code))) c = findUnique d c"
    proof (intro allI impI)
      fix c assume "c \<noteq> code"
      then have "findUnique (fst (redirect_handler d (now e) code)) c = findUnique d c"
        by (cases "findUnique d c") (auto simp: r findUnique_after_click dest: findUnique_Some)
      then show "findUnique (fst (handle d e (RedirectTo code))) c = findUnique d c"
        by (simp only: h)
    qed
    have "map linkId (rows (fst (redirect_handler d (now e) code))) = map linkId (rows d)"
      by (simp add: r click_def comp_def if_distrib cong: if_cong)
    then show "map linkId (rows (fst (handle d e (RedirectTo code)))) = map linkId (rows d)"
      by (simp only: h)
    show "nextId (fst (handle d e (RedirectTo code))) = nextId d"
      by (simp only: h r fst_conv) simp
  }
  show "encodeUrl (targetUrl l) = targetUrl l" if "\<forall>c\<in>set (targetUrl l). uri_unescaped c"
    using that by (rule encodeUrl_unescaped)
  show "handle d e (RedirectTo code) = (d, redirect_not_found)" if "findUnique d code = None"
    using that by (simp only: h redirect_missing)
  show "status redirect_not_found = 404" by (simp add: redirect_not_found_def)
qed

theorem redirect_route_spec_witness:
  "static_answer zero_site ''airocks7'' = None \<and> ''airocks7'' \<noteq> [] \<and> \<not> is_healthz ''airocks7''
   \<and> findUnique docs_db ''airocks7'' = Some docs_link
   \<and> snd (handle docs_db zero_site (RedirectTo ''airocks7'')) = Redirect 302 ''https://example.com/docs''
   \<and> findUnique (fst (handle docs_db zero_site (RedirectTo ''airocks7''))) ''airocks7''
       = Some (docs_link\<lparr>totalClicks := 1, lastClickedAt := Some 2000\<rparr>)
   \<and> static_answer zero_site ''nonexist'' = None \<and> ''nonexist'' \<noteq> [] \<and> \<not> is_healthz ''nonexist''
   \<and> findUnique docs_db ''nonexist'' = None
   \<and> handle docs_db zero_site (RedirectTo ''nonexist'') = (docs_db, redirect_not_found)"
proof -
  have s: "static_answer zero_site ''airocks7'' = None" "static_answer zero_site ''nonexist'' = None"
    by (simp_all add: zero_site_plain)
  have n: "''airocks7'' \<noteq> []" "''nonexist'' \<noteq> []" by simp_all
  have h: "\<not> is_healthz ''airocks7''" "\<not> is_healthz ''nonexist''"
    by (simp_all add: is_healthz_def)
  have f: "findUnique docs_db ''airocks7'' = Some docs_link" "findUnique docs_db ''nonexist'' = None"
    by (simp_all add: findUnique_def docs_db_def docs_link_def)
  have u: "\<forall>c\<in>set (targetUrl docs_link). uri_unescaped c"
    unfolding docs_link_def by code_simp
  have t: "targetUrl docs_link = ''https://example.com/docs''" "totalClicks docs_link = 0"
    by (simp_all add: docs_link_def)
  show ?thesis
    using redirect_route_spec [OF s(1) n(1) h(1), of docs_db docs_link]
      redirect_route_spec [OF s(2) n(2) h(2), of docs_db docs_link]
      s n h f u
    by (simp add: t zero_site_plain)
qed

text \<open>
  Claim C1 as stated fails twice. Creating the custom code \<open>healthz\<close>, which
  \<open>CODE_REGEX\<close> accepts, leaves the table \<open>healthz_db\<close>; GET /healthz is then taken by
  the health route, answers 200 and counts no click. And the record created for the
  accepted target \<open>http://a b\<close> is redirected to the location \<open>http://a%20b\<close>, which is
  not its \<open>targetUrl\<close>.
\<close>

theorem redirect_route_counterexample:
  "validateCode ''healthz''
   \<and> fst (handle empty_db zero_site
        (Create \<lparr>body_targetUrl = Some ''https://example.com/docs'', body_customCode = Some ''healthz''\<rparr>))
      = healthz_db
   \<and> findUnique healthz_db ''healthz'' = Some healthz_link
   \<and> handle healthz_db zero_site (RedirectTo ''healthz'') = (healthz_db, health_response)
   \<and> status health_response = 200
   \<and> fst (handle empty_db zero_site
        (Create \<lparr>body_targetUrl = Some ''http://a b'', body_customCode = Some ''spaced1''\<rparr>))
      = spaced_db
   \<and> findUnique spaced_db ''spaced1'' = Some spaced_link
   \<and> targetUrl spaced_link = ''http://a b''
   \<and> snd (handle spaced_db zero_site (RedirectTo ''spaced1'')) = Redirect 302 ''http://a%20b''"
  by code_simp

subsection \<open>Redirects in flight together\<close>

lemma then_answer_not_finished: "then_answer r \<noteq> Finished r'"
  by (simp add: then_answer_def)

lemma redirect_task_step:
  "step_task (redirect_task t code) d =
     (case findUnique d code of
        None \<Rightarrow> (d, then_answer redirect_not_found)
      | Some l \<Rightarrow>
          (d\<lparr>rows := map (\<lambda>r. if shortCode r = code then click t r else r) (rows d)\<rparr>,
           then_answer (Redirect 302 (encodeUrl (targetUrl l)))))"
  by (simp add: redirect_task_def prisma_update_click_def click_def split: option.splits)

lemma redirect_task_not_later:
  "redirect_task t code \<noteq> then_answer r" "redirect_task t code \<noteq> Finished r"
proof -
  show "redirect_task t code \<noteq> Finished r"
    by (simp add: redirect_task_def)
  show "redirect_task t code \<noteq> then_answer r"
  proof
    assume "redirect_task t code = then_answer r"
    then have "step_task (redirect_task t code) empty_db = step_task (then_answer r) empty_db"
      by simp
    then show False
      by (simp add: redirect_task_step findUnique_def empty_db_def then_answer_def)
  qed
qed

lemma phase_values:
  "phase r (Finished r) = 2" "phase r (then_answer r) = 1" "phase r (redirect_task t code) = 0"
  by (simp_all add: phase_def then_answer_not_finished redirect_task_not_later)

lemma phase_le: "phase r t \<le> 2"
  by (simp add: phase_def)

lemma phase_2: "phase r t = 2 \<longleftrightarrow> t = Finished r"
  by (simp add: phase_def)

lemma filter_update_length:
  assumes "i < length xs"
  shows "int (length (filter P (xs[i := x])))
       = int (length (filter P xs)) + (if P x then 1 else 0) - (if P (xs ! i) then 1 else 0)"
  using assms
proof (induction xs arbitrary: i)
  case Nil
  then show ?case by simp
next
  case (Cons a xs)
  show ?case
  proof (cases i)
    case 0
    then show ?thesis by simp
  next
    case (Suc k)
    then have "k < length xs" using Cons.prems by simp
    from Cons.IH [OF this] show ?thesis using Suc by (auto split: if_splits)
  qed
qed

lemma redirect_request_task:
  "before_redirect e code = None \<Longrightarrow> redirect_request e code = redirect_task (now e) code"
  by (simp add: redirect_request_def)

lemma burst_step:
  assumes routed: "\<forall>e\<in>set es. before_redirect e code = None"
    and inv: "burst_inv code l es (d, ts)" and i: "i < length ts"
  shows "burst_inv code l es (fst (step_task (ts ! i) d), ts[i := snd (step_task (ts ! i) d)])
       \<and> phase (Redirect 302 (encodeUrl (targetUrl l))) (snd (step_task (ts ! i) d))
           = min 2 (phase (Redirect 302 (encodeUrl (targetUrl l))) (ts ! i) + 1)"
proof -
  let ?R = "Redirect 302 (encodeUrl (targetUrl l))"
  have len: "length ts = length es" using inv by (simp add: burst_inv_def)
  then have ie: "i < length es" using i by simp
  obtain l' where l': "findUnique d code = Some l'" "targetUrl l' = targetUrl l"
    "totalClicks l' = totalClicks l + int (length (filter (\<lambda>t. 0 < phase ?R t) ts))"
    using inv by (auto simp: burst_inv_def)
  have stages: "\<forall>j<length es. ts ! j = redirect_request (es ! j) code
                      \<or> ts ! j = then_answer ?R \<or> ts ! j = Finished ?R"
    using inv by (simp add: burst_inv_def)
  have req: "redirect_request (es ! j) code = redirect_task (now (es ! j)) code" if "j < length es" for j
    using routed that by (simp add: redirect_request_task)
  consider (start) "ts ! i = redirect_request (es ! i) code"
    | (waiting) "ts ! i = then_answer ?R" | (answered) "ts ! i = Finished ?R"
    using stages ie by blast
  then show ?thesis
  proof cases
    case start
    let ?d' = "d\<lparr>rows := map (\<lambda>r. if shortCode r = code then click (now (es ! i)) r else r) (rows d)\<rparr>"
    have st: "step_task (ts ! i) d = (?d', then_answer ?R)"
      by (simp add: start req [OF ie] redirect_task_step l')
    have sc: "shortCode l' = code" using l'(1) by (simp add: findUnique_Some)
    have f': "findUnique ?d' code = Some (click (now (es ! i)) l')"
      by (simp add: findUnique_after_click l'(1) sc)
    have ph0: "phase ?R (ts ! i) = 0"
      by (simp add: start req [OF ie] phase_values)
    have cnt: "int (length (filter (\<lambda>t. 0 < phase ?R t) (ts[i := then_answer ?R])))
        = int (length (filter (\<lambda>t. 0 < phase ?R t) ts)) + 1"
      using filter_update_length [OF i, of "\<lambda>t. 0 < phase ?R t" "then_answer ?R"] ph0
      by (simp add: phase_values)
    have "burst_inv code l es (?d', ts[i := then_answer ?R])"
      unfolding burst_inv_def
    proof (intro conjI)
      show "length (snd (?d', ts[i := then_answer ?R])) = length es" using len by simp
      show "\<forall>j<length es. snd (?d', ts[i := then_answer ?R]) ! j = redirect_request (es ! j) code
              \<or> snd (?d', ts[i := then_answer ?R]) ! j = then_answer ?R
              \<or> snd (?d', ts[i := then_answer ?R]) ! j = Finished ?R"
        using stages len i by (auto simp: nth_list_update)
      show "\<exists>l''. findUnique (fst (?d', ts[i := then_answer ?R])) code = Some l''
              \<and> targetUrl l'' = targetUrl l
              \<and> totalClicks l'' = totalClicks l
                 + int (length (filter (\<lambda>t. 0 < phase ?R t) (snd (?d', ts[i := then_answer ?R]))))"
        using f' l'(2,3) cnt by (simp add: click_def)
    qed
    then show ?thesis by (simp only: st fst_conv snd_conv) (simp add: ph0 phase_values)
  next
    case waiting
    have st: "step_task (ts ! i) d = (d, Finished ?R)"
      by (simp add: waiting then_answer_def)
    have cnt: "int (length (filter (\<lambda>t. 0 < phase ?R t) (ts[i := Finished ?R])))
        = int (length (filter (\<lambda>t. 0 < phase ?R t) ts))"
      using filter_update_length [OF i, of "\<lambda>t. 0 < phase ?R t" "Finished ?R"]
      by (simp add: waiting phase_values)
    have "burst_inv code l es (d, ts[i := Finished ?R])"
      unfolding burst_inv_def
    proof (intro conjI)
      show "length (snd (d, ts[i := Finished ?R])) = length es" using len by simp
      show "\<forall>j<length es. snd (d, ts[i := Finished ?R]) ! j = redirect_request (es ! j) code
              \<or> snd (d, ts[i := Finished ?R]) ! j = then_answer ?R
              \<or> snd (d, ts[i := Finished ?R]) ! j = Finished ?R"
        using stages len i by (auto simp: nth_list_update)
      show "\<exists>l''. findUnique (fst (d, ts[i := Finished ?R])) code = Some l''
              \<and> targetUrl l'' = targetUrl l
              \<and> totalClicks l'' = totalClicks l
                 + int (length (filter (\<lambda>t. 0 < phase ?R t) (snd (d, ts[i := Finished ?R]))))"
        using l' cnt by simp
    qed
    then show ?thesis by (simp only: st fst_conv snd_conv) (simp add: waiting phase_values)
  next
    case answered
    have st: "step_task (ts ! i) d = (d, Finished ?R)"
      by (simp add: answered)
    have "ts[i := Finished ?R] = ts"
      using answered by (metis list_update_id)
    then show ?thesis using inv by (simp only: st fst_conv snd_conv) (simp add: answered phase_values)
  qed
qed

lemma burst_run:
  assumes routed: "\<forall>e\<in>set es. before_redirect e code = None"
  shows "burst_inv code l es (d, ts) \<Longrightarrow>
     burst_inv code l es (run_schedule sched (d, ts))
     \<and> (\<forall>j<length es. min 2 (phase (Redirect 302 (encodeUrl (targetUrl l))) (ts ! j) + count_list sched j)
           \<le> phase (Redirect 302 (encodeUrl (targetUrl l))) (snd (run_schedule sched (d, ts)) ! j))"
proof (induction sched arbitrary: d ts)
  case Nil
  then show ?case by simp
next
  case (Cons i sched)
  let ?R = "Redirect 302 (encodeUrl (targetUrl l))"
  have len: "length ts = length es" using Cons.prems by (simp add: burst_inv_def)
  show ?case
  proof (cases "i < length ts")
    case False
    then have run: "run_schedule (i # sched) (d, ts) = run_schedule sched (d, ts)" by simp
    have "count_list (i # sched) j = count_list sched j" if "j < length es" for j
      using that False len by simp
    then show ?thesis using Cons.IH [OF Cons.prems] by (simp only: run) simp
  next
    case True
    let ?d' = "fst (step_task (ts ! i) d)" and ?t' = "snd (step_task (ts ! i) d)"
    have run: "run_schedule (i # sched) (d, ts) = run_schedule sched (?d', ts[i := ?t'])"
      using True by (simp add: split_beta)
    note step = burst_step [OF routed Cons.prems True]
    note ih = Cons.IH [OF step [THEN conjunct1]]
    have "min 2 (phase ?R (ts ! j) + count_list (i # sched) j)
            \<le> phase ?R (snd (run_schedule sched (?d', ts[i := ?t'])) ! j)" if j: "j < length es" for j
    proof (cases "j = i")
      case True
      have "min 2 (phase ?R (ts ! i) + count_list (i # sched) i)
              \<le> min 2 (phase ?R (ts[i := ?t'] ! i) + count_list sched i)"
        using step [THEN conjunct2] \<open>i < length ts\<close> by simp
      then show ?thesis using ih [THEN conjunct2] j True by (meson order_trans)
    next
      case False
      then have a: "ts[i := ?t'] ! j = ts ! j" and b: "count_list (i # sched) j = count_list sched j"
        by simp_all
      from ih [THEN conjunct2] j
      have "min 2 (phase ?R (ts[i := ?t'] ! j) + count_list sched j)
              \<le> phase ?R (snd (run_schedule sched (?d', ts[i := ?t'])) ! j)"
        by blast
      then show ?thesis by (simp only: a b)
    qed
    then show ?thesis using ih [THEN conjunct1] by (simp only: run) simp
  qed
qed

lemma burst_inv_start:
  assumes "findUnique d code = Some l" and "\<forall>e\<in>set es. before_redirect e code = None"
  shows "burst_inv code l es (d, map (\<lambda>e. redirect_request e code) es)"
proof -
  let ?R = "Redirect 302 (encodeUrl (targetUrl l))"
  have "phase ?R t = 0" if "t \<in> set (map (\<lambda>e. redirect_request e code) es)" for t
    using that assms(2) by (auto simp: redirect_request_task phase_values)
  then have "filter (\<lambda>t. 0 < phase ?R t) (map (\<lambda>e. redirect_request e code) es) = []"
    by (simp add: filter_empty_conv)
  then show ?thesis
    using assms(1) by (simp add: burst_inv_def)
qed

lemma redirect_request_alone:
  "run_schedule [0, 0] (d, [redirect_request e code])
     = (fst (handle d e (RedirectTo code)), [Finished (snd (handle d e (RedirectTo code)))])"
proof (cases "before_redirect e code")
  case (Some r)
  then show ?thesis by (simp add: redirect_request_def)
next
  case None
  show ?thesis
    by (cases "findUnique d code")
       (simp_all add: redirect_request_def None redirect_task_step then_answer_def
          redirect_found redirect_missing)
qed

text \<open>
  The schedule matters to a handler made of two statements: with the reads of two
  requests executed before either write, one of the two clicks is lost.
\<close>

lemma two_round_trips_lose_an_update:
  "map_option totalClicks
     (findUnique (fst (run_schedule [0, 1, 0, 1]
        (docs_db, [two_round_trips 5000 ''airocks7'', two_round_trips 6000 ''airocks7''])))
        ''airocks7'') = Some 1
   \<and> map answer (snd (run_schedule [0, 1, 0, 1]
        (docs_db, [two_round_trips 5000 ''airocks7'', two_round_trips 6000 ''airocks7''])))
      = [Some (Redirect 302 ''https://example.com/docs''),
         Some (Redirect 302 ''https://example.com/docs'')]"
  by code_simp

text \<open>
  Claim C2, as amended. Let a record with the code exist, and let any number of
  requests GET \<open>/\<close>\<open>code\<close> that reach the route \<open>/:code\<close> be in flight together, each with
  its own clock reading. Let the store execute their statements, and the handlers
  send their answers, in any order whatever in which every request gets its two
  turns. Then the record's \<open>totalClicks\<close> ends at its value before the burst plus the
  number of requests, and every request is answered 302 with the location that
  \<open>res.redirect\<close> derives from the record's \<open>targetUrl\<close>.
\<close>

theorem concurrent_redirects_no_lost_update:
  assumes "findUnique d code = Some l"
    and "\<forall>e\<in>set es. static_answer e code = None" and "code \<noteq> []" and "\<not> is_healthz code"
    and "\<forall>i<length es. 2 \<le> count_list sched i"
  shows "map_option totalClicks
           (findUnique (fst (run_schedule sched (d, map (\<lambda>e. redirect_request e code) es))) code)
         = Some (totalClicks l + int (length es))
       \<and> map answer (snd (run_schedule sched (d, map (\<lambda>e. redirect_request e code) es)))
         = replicate (length es) (Some (Redirect 302 (encodeUrl (targetUrl l))))"
proof -
  let ?R = "Redirect 302 (encodeUrl (targetUrl l))"
  let ?ts = "map (\<lambda>e. redirect_request e code) es"
  let ?s = "run_schedule sched (d, ?ts)"
  have routed: "\<forall>e\<in>set es. before_redirect e code = None"
    using assms(2-4) by (simp add: before_redirect_None)
  note run = burst_run [OF routed burst_inv_start [OF assms(1) routed], of sched]
  have inv: "burst_inv code l es ?s" using run by blast
  have len: "length (snd ?s) = length es" using inv by (simp add: burst_inv_def)
  have fin: "snd ?s ! j = Finished ?R" if j: "j < length es" for j
  proof -
    have "min 2 (phase ?R (?ts ! j) + count_list sched j) \<le> phase ?R (snd ?s ! j)"
      using run j by blast
    moreover have "2 \<le> count_list sched j" using assms(5) j by blast
    ultimately have "2 \<le> phase ?R (snd ?s ! j)" by simp
    then have "phase ?R (snd ?s ! j) = 2" using phase_le [of ?R "snd ?s ! j"] by simp
    then show ?thesis by (simp add: phase_2)
  qed
  have all: "snd ?s = replicate (length es) (Finished ?R)"
    using len fin by (simp add: list_eq_iff_nth_eq)
  have "filter (\<lambda>t. 0 < phase ?R t) (snd ?s) = snd ?s"
    by (simp add: all phase_values)
  then have "length (filter (\<lambda>t. 0 < phase ?R t) (snd ?s)) = length es"
    using len by simp
  then have "\<exists>l'. findUnique (fst ?s) code = Some l' \<and> totalClicks l' = totalClicks l + int (length es)"
    using inv by (auto simp: burst_inv_def)
  then show ?thesis using all by auto
qed

theorem concurrent_redirects_no_lost_update_witness:
  "findUnique docs_db ''airocks7'' = Some docs_link
   \<and> static_answer zero_site ''airocks7'' = None \<and> ''airocks7'' \<noteq> [] \<and> \<not> is_healthz ''airocks7''
   \<and> 2 \<le> count_list [2, 0, 1, 0, 2, 1] 0 \<and> 2 \<le> count_list [2, 0, 1, 0, 2, 1] 1
   \<and> 2 \<le> count_list [2, 0, 1, 0, 2, 1] (2 :: nat)
   \<and> map_option totalClicks
        (findUnique (fst (run_schedule [2, 0, 1, 0, 2, 1]
           (docs_db, [redirect_request zero_site ''airocks7'', redirect_request zero_site ''airocks7'',
                      redirect_request zero_site ''airocks7'']))) ''airocks7'') = Some 3
   \<and> map answer (snd (run_schedule [2, 0, 1, 0, 2, 1]
           (docs_db, [redirect_request zero_site ''airocks7'', redirect_request zero_site ''airocks7'',
                      redirect_request zero_site ''airocks7''])))
       = [Some (Redirect 302 ''https://example.com/docs''),
          Some (Redirect 302 ''https://example.com/docs''),
          Some (Redirect 302 ''https://example.com/docs'')]"
proof -
  have f: "findUnique docs_db ''airocks7'' = Some docs_link"
    by (simp add: findUnique_def docs_db_def docs_link_def)
  have s: "\<forall>e\<in>set [zero_site, zero_site, zero_site]. static_answer e ''airocks7'' = None"
    by (simp add: zero_site_plain)
  have n: "''airocks7'' \<noteq> []" by simp
  have h: "\<not> is_healthz ''airocks7''" by (simp add: is_healthz_def)
  have c: "\<forall>i<length [zero_site, zero_site, zero_site]. 2 \<le> count_list [2, 0, 1, 0, 2, 1] i"
    by (simp add: less_Suc_eq numeral_3_eq_3)
  have u: "encodeUrl ''https://example.com/docs'' = ''https://example.com/docs''"
    by code_simp
  from concurrent_redirects_no_lost_update [OF f s n h c]
  show ?thesis
    using f n h by (simp add: u zero_site_plain docs_link_def numeral_3_eq_3)
qed

text \<open>
  Claim C2 as stated fails on the table \<open>healthz_db\<close>: two requests GET /healthz in
  flight together are both answered 200 by the health route and the count of the
  record stays 0. On \<open>spaced_db\<close> both requests are redirected, to a location that is
  not the record's \<open>targetUrl\<close>.
\<close>

theorem concurrent_redirects_counterexample:
  "findUnique healthz_db ''healthz'' = Some healthz_link
   \<and> totalClicks healthz_link = 0
   \<and> fst (run_schedule [0, 1, 0, 1]
        (healthz_db, [redirect_request zero_site ''healthz'', redirect_request zero_site ''healthz'']))
      = healthz_db
   \<and> map answer (snd (run_schedule [0, 1, 0, 1]
        (healthz_db, [redirect_request zero_site ''healthz'', redirect_request zero_site ''healthz''])))
      = [Some health_response, Some health_response]
   \<and> status health_response = 200
   \<and> findUnique spaced_db ''spaced1'' = Some spaced_link
   \<and> targetUrl spaced_link = ''http://a b''
   \<and> map answer (snd (run_schedule [0, 1, 0, 1]
        (spaced_db, [redirect_request zero_site ''spaced1'', redirect_request zero_site ''spaced1''])))
      = [Some (Redirect 302 ''http://a%20b''), Some (Redirect 302 ''http://a%20b'')]"
  by code_simp

subsection \<open>GET /api/links\<close>

lemma set_findMany: "set (findMany_createdAt_desc d) = set (rows d)"
  by (simp add: findMany_createdAt_desc_def)

lemma delete_handler_found:
  assumes "findUnique d code = Some l"
  shows "delete_handler d code =
           (d\<lparr>rows := filter (\<lambda>r. shortCode r \<noteq> code) (rows d)\<rparr>, Response 204 NoBody)"
  using assms by (simp add: delete_handler_def prisma_delete_def)

lemma delete_handler_missing:
  assumes "findUnique d code = None"
  shows "delete_handler d code = (d, Response 404 (ErrorJson ''Link not found or already deleted.''))"
  using assms by (simp add: delete_handler_def prisma_delete_def)

text \<open>
  Claim C9. The listing answers 200 with every record of the table, each exactly once
  and none left out (there is no pagination), most recently created first; it is the
  empty sequence when the table is empty; the table itself is unchanged. A record
  removed by a successful DELETE is not listed afterwards.
\<close>

theorem list_handler_spec:
  "list_handler d = (d, Response 200 (LinksJson (findMany_createdAt_desc d)))
   \<and> mset (findMany_createdAt_desc d) = mset (rows d)
   \<and> sorted_wrt (\<lambda>a b. createdAt b \<le> createdAt a) (findMany_createdAt_desc d)
   \<and> (rows d = [] \<longrightarrow> findMany_createdAt_desc d = [])
   \<and> (status (snd (delete_handler d code)) = 204 \<longrightarrow>
        (\<forall>l\<in>set (findMany_createdAt_desc (fst (delete_handler d code))). shortCode l \<noteq> code))"
proof (intro conjI impI)
  show "list_handler d = (d, Response 200 (LinksJson (findMany_createdAt_desc d)))"
    by (simp add: list_handler_def)
  show "mset (findMany_createdAt_desc d) = mset (rows d)"
    by (simp add: findMany_createdAt_desc_def)
  have "sorted (map createdAt (sort_key createdAt (rows d)))"
    by (rule sorted_sort_key)
  then have "sorted_wrt (\<lambda>a b. createdAt a \<le> createdAt b) (sort_key createdAt (rows d))"
    by (simp add: sorted_map)
  then show "sorted_wrt (\<lambda>a b. createdAt b \<le> createdAt a) (findMany_createdAt_desc d)"
    by (simp add: findMany_createdAt_desc_def sorted_wrt_rev)
  show "findMany_createdAt_desc d = []" if "rows d = []"
    using that by (simp add: findMany_createdAt_desc_def)
  show "\<forall>l\<in>set (findMany_createdAt_desc (fst (delete_handler d code))). shortCode l \<noteq> code"
    if "status (snd (delete_handler d code)) = 204"
  proof (cases "findUnique d code")
    case None
    with that show ?thesis by (simp add: delete_handler_missing)
  next
    case (Some l)
    then show ?thesis by (simp add: delete_handler_found set_findMany)
  qed
qed

theorem list_handler_spec_witness:
  "findMany_createdAt_desc two_db = rev (rows two_db)
   \<and> sorted_wrt (\<lambda>a b. createdAt b \<le> createdAt a) (rev (rows two_db))
   \<and> status (snd (delete_handler two_db ''airocks7'')) = 204
   \<and> map shortCode (findMany_createdAt_desc (fst (delete_handler two_db ''airocks7''))) = [''AAAAAA'']
   \<and> rows empty_db = [] \<and> list_handler empty_db = (empty_db, Response 200 (LinksJson []))"
  using list_handler_spec [of two_db "''airocks7''"] list_handler_spec [of empty_db "''airocks7''"]
  by (simp add: two_db_def docs_link_def empty_db_def findMany_createdAt_desc_def
      delete_handler_def prisma_delete_def findUnique_def)

subsection \<open>What each handler does to the table\<close>

lemma save_link_eq:
  "save_link d e code url =
     (if findUnique d code = None then
        (d\<lparr>rows := rows d @ [\<lparr>linkId = nextId d, shortCode = code, targetUrl = url,
                                totalClicks = 0, createdAt = now e, lastClickedAt = None\<rparr>],
           nextId := Suc (nextId d)\<rparr>,
         Response 201 (CreatedJson ''Link created successfully.''
           \<lparr>linkId = nextId d, shortCode = code, targetUrl = url,
            totalClicks = 0, createdAt = now e, lastClickedAt = None\<rparr>))
      else (d, code_conflict))"
  by (auto simp: save_link_def prisma_create_def Let_def)

lemma save_link_db:
  "fst (save_link d e code url) = d \<or>
   (findUnique d code = None \<and>
    fst (save_link d e code url) =
      d\<lparr>rows := rows d @ [\<lparr>linkId = nextId d, shortCode = code, targetUrl = url,
                              totalClicks = 0, createdAt = now e, lastClickedAt = None\<rparr>],
         nextId := Suc (nextId d)\<rparr>)"
  by (simp add: save_link_eq)

lemma generate_and_save_db:
  "fst (generate_and_save d e sc url) = d \<or>
   (\<exists>code. fst (generate_and_save d e sc url) = fst (save_link d e code url))"
  by (auto simp: generate_and_save_def split: prod.splits bool.splits option.splits)

lemma create_handler_db:
  "fst (create_handler d e b) = d \<or>
   (\<exists>code url. fst (create_handler d e b) = fst (save_link d e code url))"
  using generate_and_save_db [of d e]
  by (auto simp: create_handler_def split: option.splits)

lemma create_handler_rows:
  "fst (create_handler d e b) = d \<or>
   (\<exists>code url. findUnique d code = None \<and>
      fst (create_handler d e b) =
        d\<lparr>rows := rows d @ [\<lparr>linkId = nextId d, shortCode = code, targetUrl = url,
                                totalClicks = 0, createdAt = now e, lastClickedAt = None\<rparr>],
           nextId := Suc (nextId d)\<rparr>)"
  using create_handler_db [of d e b] save_link_db [of d e] by metis

lemma delete_handler_db:
  "fst (delete_handler d code) = d \<or>
   fst (delete_handler d code) = d\<lparr>rows := filter (\<lambda>r. shortCode r \<noteq> code) (rows d)\<rparr>"
  by (cases "findUnique d code") (simp_all add: delete_handler_found delete_handler_missing)

lemma redirect_handler_db:
  "fst (redirect_handler d t code) = d \<or>
   fst (redirect_handler d t code) =
     d\<lparr>rows := map (\<lambda>r. if shortCode r = code then click t r else r) (rows d)\<rparr>"
  by (cases "findUnique d code") (simp_all add: redirect_found redirect_missing)

lemma handle_list_db: "fst (handle d e ListLinks) = d"
  by (simp add: list_handler_def split: option.splits)

lemma handle_get_db: "fst (handle d e (GetLink code)) = d"
  by (simp add: list_handler_def get_handler_def split: option.splits)

lemma handle_delete_db:
  "fst (handle d e (DeleteLink code)) = d \<or>
   fst (handle d e (DeleteLink code)) = d\<lparr>rows := filter (\<lambda>r. shortCode r \<noteq> code) (rows d)\<rparr>"
  using delete_handler_db [of d code] by simp

lemma handle_redirect_db:
  "fst (handle d e (RedirectTo code)) = d \<or>
   fst (handle d e (RedirectTo code)) =
     d\<lparr>rows := map (\<lambda>r. if shortCode r = code then click (now e) r else r) (rows d)\<rparr>"
  using redirect_handler_db [of d "now e" code] by (simp split: option.splits)

lemma well_formed_append:
  assumes "well_formed d" and "findUnique d code = None"
  shows "well_formed (d\<lparr>rows := rows d @ [\<lparr>linkId = nextId d, shortCode = code, targetUrl = url,
                                totalClicks = 0, createdAt = t, lastClickedAt = None\<rparr>],
           nextId := Suc (nextId d)\<rparr>)"
proof -
  have fresh_id: "nextId d \<notin> linkId ` set (rows d)"
    using assms(1) by (auto simp: well_formed_def)
  have fresh_code: "code \<notin> shortCode ` set (rows d)"
    using assms(2) by (simp add: findUnique_None)
  show ?thesis
    using assms(1) fresh_id fresh_code
    by (auto simp: well_formed_def less_Suc_eq)
qed

lemma well_formed_filter:
  assumes "well_formed d"
  shows "well_formed (d\<lparr>rows := filter P (rows d)\<rparr>)"
  using assms by (auto simp: well_formed_def distinct_map_filter)

lemma map_click_keys:
  "map linkId (map (\<lambda>r. if shortCode r = code then click t r else r) xs) = map linkId xs"
  "map shortCode (map (\<lambda>r. if shortCode r = code then click t r else r) xs) = map shortCode xs"
  by (induction xs) (simp_all add: click_def)

lemma well_formed_click:
  assumes "well_formed d"
  shows "well_formed (d\<lparr>rows := map (\<lambda>r. if shortCode r = code then click t r else r) (rows d)\<rparr>)"
proof -
  let ?f = "\<lambda>r. if shortCode r = code then click t r else r"
  have "distinct (map linkId (map ?f (rows d)))" "distinct (map shortCode (map ?f (rows d)))"
    using assms by (simp_all only: map_click_keys well_formed_def)
  moreover have "\<forall>l\<in>set (map ?f (rows d)). linkId l < nextId d \<and> 0 \<le> totalClicks l"
    using assms by (auto simp: well_formed_def click_def)
  ultimately show ?thesis
    by (simp add: well_formed_def)
qed

lemma well_formed_handle:
  assumes "well_formed d"
  shows "well_formed (fst (handle d e rq))"
proof (cases rq)
  case (Create b)
  then show ?thesis
    using create_handler_rows [of d e b] well_formed_append [OF assms] assms by auto
next
  case ListLinks
  then show ?thesis using assms by (simp only: handle_list_db)
next
  case (GetLink code)
  then show ?thesis using assms by (simp only: handle_get_db)
next
  case (DeleteLink code)
  then show ?thesis
    using handle_delete_db [of d e code] well_formed_filter [OF assms] assms by auto
next
  case (RedirectTo code)
  then show ?thesis
    using handle_redirect_db [of d e code] well_formed_click [OF assms] assms by auto
qed

lemma well_formed_empty: "well_formed empty_db"
  by (simp add: well_formed_def empty_db_def)

lemma reachable_well_formed: "reachable d \<Longrightarrow> well_formed d"
  by (induction rule: reachable.induct) (simp_all add: well_formed_empty well_formed_handle)

lemma same_id_same_row:
  assumes "well_formed d" "l \<in> set (rows d)" "l' \<in> set (rows d)" "linkId l' = linkId l"
  shows "l' = l"
proof -
  have "inj_on linkId (set (rows d))"
    using assms(1) by (simp add: well_formed_def distinct_map)
  then show ?thesis using assms(2-4) by (auto dest: inj_onD)
qed

subsection \<open>The click counter over the life of the registry\<close>

text \<open>
  Claim C8. In every table the service can reach, and for every request it handles
  there: no click count is negative afterwards; a record that is still present
  afterwards (same identifier) is either exactly as before, or the request was a
  redirect on its code and the record differs by \<open>totalClicks\<close> plus 1 together with
  \<open>lastClickedAt\<close> set to the current time; and a record that was not present before
  comes from a creation and has \<open>totalClicks\<close> 0 and no \<open>lastClickedAt\<close>.
\<close>

theorem totalClicks_only_grows_by_redirect:
  assumes "reachable d"
  shows "(\<forall>l'\<in>set (rows (fst (handle d e rq))). 0 \<le> totalClicks l')
       \<and> (\<forall>l\<in>set (rows d). \<forall>l'\<in>set (rows (fst (handle d e rq))). linkId l' = linkId l \<longrightarrow>
             l' = l \<or>
             (rq = RedirectTo (shortCode l)
              \<and> l' = l\<lparr>totalClicks := totalClicks l + 1, lastClickedAt := Some (now e)\<rparr>))
       \<and> (\<forall>l'\<in>set (rows (fst (handle d e rq))). linkId l' \<notin> linkId ` set (rows d) \<longrightarrow>
             (\<exists>b. rq = Create b) \<and> totalClicks l' = 0 \<and> lastClickedAt l' = None)"
proof (intro conjI ballI impI)
  note wf = reachable_well_formed [OF assms]
  have wf': "well_formed (fst (handle d e rq))"
    using wf by (rule well_formed_handle)
  show "0 \<le> totalClicks l'" if "l' \<in> set (rows (fst (handle d e rq)))" for l'
    using wf' that by (simp add: well_formed_def)
  show "l' = l \<or> (rq = RedirectTo (shortCode l)
              \<and> l' = l\<lparr>totalClicks := totalClicks l + 1, lastClickedAt := Some (now e)\<rparr>)"
    if l: "l \<in> set (rows d)" and l': "l' \<in> set (rows (fst (handle d e rq)))"
      and same: "linkId l' = linkId l" for l l'
  proof (cases rq)
    case (Create b)
    have "linkId l' < nextId d"
      using wf l same by (simp add: well_formed_def)
    then have "l' \<in> set (rows d)"
      using create_handler_rows [of d e b] l' Create by auto
    then show ?thesis using same_id_same_row [OF wf l _ same] by simp
  next
    case ListLinks
    then have "l' \<in> set (rows d)" using l' by (simp only: handle_list_db)
    then show ?thesis using same_id_same_row [OF wf l _ same] by simp
  next
    case (GetLink code)
    then have "l' \<in> set (rows d)" using l' by (simp only: handle_get_db)
    then show ?thesis using same_id_same_row [OF wf l _ same] by simp
  next
    case (DeleteLink code)
    then have "l' \<in> set (rows d)" using l' handle_delete_db [of d e code] by auto
    then show ?thesis using same_id_same_row [OF wf l _ same] by simp
  next
    case (RedirectTo code)
    from handle_redirect_db [of d e code]
    show ?thesis
    proof
      assume "fst (handle d e (RedirectTo code)) = d"
      then have "l' \<in> set (rows d)" using l' RedirectTo by simp
      then show ?thesis using same_id_same_row [OF wf l _ same] by simp
    next
      assume "fst (handle d e (RedirectTo code)) =
        d\<lparr>rows := map (\<lambda>r. if shortCode r = code then click (now e) r else r) (rows d)\<rparr>"
      then obtain r where r: "r \<in> set (rows d)"
        and l'_def: "l' = (if shortCode r = code then click (now e) r else r)"
        using l' RedirectTo by auto
      have "linkId r = linkId l" using l'_def same by (simp add: click_def split: if_splits)
      then have "r = l" using same_id_same_row [OF wf l r] by simp
      then show ?thesis using l'_def RedirectTo by (auto simp: click_def)
    qed
  qed
  have only_create: "\<exists>b. rq = Create b" if l': "l' \<in> set (rows (fst (handle d e rq)))"
    and new: "linkId l' \<notin> linkId ` set (rows d)" for l'
  proof (cases rq)
    case (Create b)
    then show ?thesis by simp
  next
    case ListLinks
    then show ?thesis using l' new by (simp only: handle_list_db) simp
  next
    case (GetLink code)
    then show ?thesis using l' new by (simp only: handle_get_db) simp
  next
    case (DeleteLink code)
    then show ?thesis using l' new handle_delete_db [of d e code] by auto
  next
    case (RedirectTo code)
    have "map linkId (rows (fst (handle d e rq))) = map linkId (rows d)"
      using handle_redirect_db [of d e code] RedirectTo
      by (auto simp add: map_click_keys simp del: map_map handle.simps)
    then have "linkId ` set (rows (fst (handle d e rq))) = linkId ` set (rows d)"
      by (metis set_map)
    then show ?thesis using l' new by blast
  qed
  show "\<exists>b. rq = Create b" if "l' \<in> set (rows (fst (handle d e rq)))"
    and "linkId l' \<notin> linkId ` set (rows d)" for l'
    using that by (rule only_create)
  show "totalClicks l' = 0" if l': "l' \<in> set (rows (fst (handle d e rq)))"
    and new: "linkId l' \<notin> linkId ` set (rows d)" for l'
  proof -
    obtain b where rq: "rq = Create b"
      using only_create [OF l' new] by blast
    show ?thesis
      using create_handler_rows [of d e b] l' new rq by auto
  qed
  show "lastClickedAt l' = None" if l': "l' \<in> set (rows (fst (handle d e rq)))"
    and new: "linkId l' \<notin> linkId ` set (rows d)" for l'
  proof -
    obtain b where rq: "rq = Create b"
      using only_create [OF l' new] by blast
    show ?thesis
      using create_handler_rows [of d e b] l' new rq by auto
  qed
qed

lemma reachable_docs_db: "reachable docs_db"
proof -
  have "fst (handle empty_db (zero_site\<lparr>now := 1000\<rparr>)
          (Create \<lparr>body_targetUrl = Some ''https://example.com/docs'', body_customCode = Some ''airocks7''\<rparr>))
        = docs_db"
    by code_simp
  then show ?thesis
    using reach_step [OF reach_empty] by metis
qed

theorem totalClicks_only_grows_by_redirect_witness:
  "reachable docs_db
   \<and> rows docs_db = [docs_link]
   \<and> rows (fst (handle docs_db zero_site (RedirectTo ''airocks7'')))
       = [docs_link\<lparr>totalClicks := totalClicks docs_link + 1, lastClickedAt := Some (now zero_site)\<rparr>]
   \<and> totalClicks docs_link = 0
   \<and> 0 \<le> totalClicks (docs_link\<lparr>totalClicks := totalClicks docs_link + 1, lastClickedAt := Some (now zero_site)\<rparr>)"
proof -
  have r: "rows (fst (handle docs_db zero_site (RedirectTo ''airocks7'')))
       = [docs_link\<lparr>totalClicks := 1, lastClickedAt := Some 2000\<rparr>]"
    by code_simp
  from totalClicks_only_grows_by_redirect [OF reachable_docs_db, of zero_site "RedirectTo ''airocks7''"]
  show ?thesis
    using reachable_docs_db r by (simp add: docs_db_def docs_link_def zero_site_plain)
qed

subsection \<open>The retry loop of POST /api/links\<close>

lemma code_loop_unfold:
  "i < 5 \<Longrightarrow> code_loop d rnd i sc =
     (case findUnique d (generateRandomCode (rnd i)) of
        None \<Rightarrow> (True, Some (generateRandomCode (rnd i)), Suc i)
      | Some _ \<Rightarrow> code_loop d rnd (Suc i) (Some (generateRandomCode (rnd i))))"
  by (subst code_loop.simps) (simp add: Let_def)

lemma code_loop_done: "\<not> i < 5 \<Longrightarrow> code_loop d rnd i sc = (False, sc, i)"
  by (subst code_loop.simps) simp

lemma code_loop_start: "code_loop d rnd 0 sc = code_loop d rnd 0 sc'"
  by (simp add: code_loop_unfold)

lemma code_loop_attempts: "i \<le> 5 \<Longrightarrow> snd (snd (code_loop d rnd i sc)) \<le> 5"
proof (induction d rnd i sc rule: code_loop.induct)
  case (1 d rnd i sc)
  show ?case
  proof (cases "i < 5")
    case True
    then show ?thesis
      using "1.IH" by (auto simp: code_loop_unfold split: option.splits)
  next
    case False
    then show ?thesis using "1.prems" by (simp add: code_loop_done)
  qed
qed

lemma code_loop_exhausted:
  assumes "\<forall>j. i \<le> j \<and> j < 5 \<longrightarrow> findUnique d (generateRandomCode (rnd j)) \<noteq> None" and "i \<le> 5"
  shows "fst (code_loop d rnd i sc) = False \<and> snd (snd (code_loop d rnd i sc)) = 5"
  using assms
proof (induction d rnd i sc rule: code_loop.induct)
  case (1 d rnd i sc)
  show ?case
  proof (cases "i < 5")
    case True
    then obtain l where l: "findUnique d (generateRandomCode (rnd i)) = Some l"
      using "1.prems"(1) by auto
    have "fst (code_loop d rnd (Suc i) (Some (generateRandomCode (rnd i)))) = False
      \<and> snd (snd (code_loop d rnd (Suc i) (Some (generateRandomCode (rnd i))))) = 5"
      using "1.IH" [OF True refl l] "1.prems" True by auto
    then show ?thesis by (simp add: code_loop_unfold True l)
  next
    case False
    then show ?thesis using "1.prems" by (simp add: code_loop_done)
  qed
qed

lemma code_loop_first_free:
  assumes "i \<le> k" "k < 5"
    and "\<forall>j. i \<le> j \<and> j < k \<longrightarrow> findUnique d (generateRandomCode (rnd j)) \<noteq> None"
    and "findUnique d (generateRandomCode (rnd k)) = None"
  shows "code_loop d rnd i sc = (True, Some (generateRandomCode (rnd k)), Suc k)"
  using assms
proof (induction d rnd i sc rule: code_loop.induct)
  case (1 d rnd i sc)
  have i5: "i < 5" using "1.prems" by simp
  show ?case
  proof (cases "i = k")
    case True
    then show ?thesis using "1.prems" by (simp add: code_loop_unfold)
  next
    case False
    then have ik: "i < k" using "1.prems" by simp
    then obtain l where l: "findUnique d (generateRandomCode (rnd i)) = Some l"
      using "1.prems"(3) by auto
    have "code_loop d rnd (Suc i) (Some (generateRandomCode (rnd i)))
            = (True, Some (generateRandomCode (rnd k)), Suc k)"
      using "1.IH" [OF i5 refl l] "1.prems" ik by auto
    then show ?thesis by (simp add: code_loop_unfold i5 l)
  qed
qed

lemma url_test_nonempty: "url_test url \<Longrightarrow> url \<noteq> []"
  by (auto simp: url_test_def URL_REGEX_def ci_def rx_opt_def)

text \<open>
  Claim C7. A creation without custom code calls the generator at most five times.
  If the candidates of all five calls are in use, it answers 500 (generation
  exhausted), after exactly five calls, and the table is unchanged. If the candidate of
  call \<open>k\<close> is the first that is free, the loop stops after \<open>k + 1\<close> calls and that
  candidate goes to the insert.
\<close>

theorem generation_bounded_and_exhausted:
  "snd (snd (code_loop d (draws e) 0 sc)) \<le> 5
   \<and> (body_targetUrl b = Some url \<and> url_test url
        \<and> (body_customCode b = None \<or> body_customCode b = Some [])
        \<and> (\<forall>i<5. findUnique d (generateRandomCode (draws e i)) \<noteq> None)
      \<longrightarrow> create_handler d e b = (d, generation_exhausted)
          \<and> status generation_exhausted = 500
          \<and> snd (snd (code_loop d (draws e) 0 sc)) = 5)
   \<and> (body_targetUrl b = Some url \<and> url_test url
        \<and> (body_customCode b = None \<or> body_customCode b = Some [])
        \<and> k < 5 \<and> (\<forall>j<k. findUnique d (generateRandomCode (draws e j)) \<noteq> None)
        \<and> findUnique d (generateRandomCode (draws e k)) = None
      \<longrightarrow> create_handler d e b = save_link d e (generateRandomCode (draws e k)) url
          \<and> snd (snd (code_loop d (draws e) 0 sc)) = Suc k)"
proof (intro conjI impI)
  show "snd (snd (code_loop d (draws e) 0 sc)) \<le> 5"
    by (rule code_loop_attempts) simp
next
  assume h: "body_targetUrl b = Some url \<and> url_test url
        \<and> (body_customCode b = None \<or> body_customCode b = Some [])
        \<and> (\<forall>i<5. findUnique d (generateRandomCode (draws e i)) \<noteq> None)"
  then have ex: "fst (code_loop d (draws e) 0 x) = False \<and> snd (snd (code_loop d (draws e) 0 x)) = 5" for x
    using code_loop_exhausted [of 0 d "draws e" x] by simp
  have "generate_and_save d e x url = (d, generation_exhausted)" for x
    using ex [of x] by (auto simp: generate_and_save_def split: prod.splits)
  then show "create_handler d e b = (d, generation_exhausted)"
    using h url_test_nonempty [of url] by (auto simp: create_handler_def)
  show "status generation_exhausted = 500"
    by (simp add: generation_exhausted_def)
  show "snd (snd (code_loop d (draws e) 0 sc)) = 5"
    using ex by simp
next
  assume h: "body_targetUrl b = Some url \<and> url_test url
        \<and> (body_customCode b = None \<or> body_customCode b = Some [])
        \<and> k < 5 \<and> (\<forall>j<k. findUnique d (generateRandomCode (draws e j)) \<noteq> None)
        \<and> findUnique d (generateRandomCode (draws e k)) = None"
  then have found: "code_loop d (draws e) 0 x = (True, Some (generateRandomCode (draws e k)), Suc k)" for x
    using code_loop_first_free [of 0 k d "draws e" x] by simp
  have "generate_and_save d e x url = save_link d e (generateRandomCode (draws e k)) url" for x
    by (simp add: generate_and_save_def found)
  then show "create_handler d e b = save_link d e (generateRandomCode (draws e k)) url"
    using h url_test_nonempty [of url] by (auto simp: create_handler_def)
  show "snd (snd (code_loop d (draws e) 0 sc)) = Suc k"
    by (simp add: found)
qed

theorem generation_bounded_and_exhausted_witness:
  "url_test ''https://example.com/docs''
   \<and> findUnique taken_db (generateRandomCode (draws zero_env 0)) \<noteq> None
   \<and> findUnique taken_db (generateRandomCode (draws zero_env 1)) \<noteq> None
   \<and> findUnique taken_db (generateRandomCode (draws zero_env 2)) \<noteq> None
   \<and> findUnique taken_db (generateRandomCode (draws zero_env 3)) \<noteq> None
   \<and> findUnique taken_db (generateRandomCode (draws zero_env 4)) \<noteq> None
   \<and> create_handler taken_db zero_env
        \<lparr>body_targetUrl = Some ''https://example.com/docs'', body_customCode = None\<rparr>
       = (taken_db, generation_exhausted)
   \<and> snd (snd (code_loop taken_db (draws zero_env) 0 None)) = 5
   \<and> findUnique docs_db (generateRandomCode (draws zero_env 0)) = None
   \<and> create_handler docs_db zero_env
        \<lparr>body_targetUrl = Some ''https://example.com/docs'', body_customCode = None\<rparr>
       = save_link docs_db zero_env ''AAAAAA'' ''https://example.com/docs''"
proof -
  have u: "url_test ''https://example.com/docs''"
    by code_simp
  have g: "generateRandomCode (draws zero_env i) = ''AAAAAA''" for i
    unfolding zero_env_def every_draw_def by code_simp
  have t: "findUnique taken_db (generateRandomCode (draws zero_env i)) \<noteq> None" for i
    by (simp add: g findUnique_def taken_db_def)
  have f: "findUnique docs_db (generateRandomCode (draws zero_env 0)) = None"
    by (simp add: g findUnique_def docs_db_def docs_link_def)
  show ?thesis
    using generation_bounded_and_exhausted
        [of taken_db zero_env None "\<lparr>body_targetUrl = Some ''https://example.com/docs'', body_customCode = None\<rparr>"
            "''https://example.com/docs''" 0]
      generation_bounded_and_exhausted
        [of docs_db zero_env None "\<lparr>body_targetUrl = Some ''https://example.com/docs'', body_customCode = None\<rparr>"
            "''https://example.com/docs''" 0]
      u t f
    by (simp add: g)
qed

text \<open>
  Claim C10. A creation whose \<open>customCode\<close> is the empty string behaves exactly as the
  same creation without \<open>customCode\<close>: it never answers with the invalid-code error,
  and with a valid \<open>targetUrl\<close> it takes the generation path.
\<close>

theorem empty_customCode_is_absent:
  "create_handler d e (b\<lparr>body_customCode := Some []\<rparr>) = create_handler d e (b\<lparr>body_customCode := None\<rparr>)
   \<and> snd (create_handler d e (b\<lparr>body_customCode := Some []\<rparr>)) \<noteq> invalid_code
   \<and> (\<forall>url. body_targetUrl b = Some url \<and> url_test url \<longrightarrow>
        create_handler d e (b\<lparr>body_customCode := Some []\<rparr>) = generate_and_save d e None url)"
proof (intro conjI allI impI)
  have gs: "generate_and_save d e (Some []) url = generate_and_save d e None url" for url
    by (simp add: generate_and_save_def code_loop_start [of d "draws e" "Some []" None])
  show eq: "create_handler d e (b\<lparr>body_customCode := Some []\<rparr>) = create_handler d e (b\<lparr>body_customCode := None\<rparr>)"
    by (simp add: create_handler_def gs split: option.splits)
  have "snd (generate_and_save d e None url) \<noteq> invalid_code" for url
    by (auto simp: generate_and_save_def save_link_eq invalid_code_def generation_exhausted_def
          code_conflict_def split: prod.splits bool.splits option.splits)
  then have "snd (create_handler d e (b\<lparr>body_customCode := None\<rparr>)) \<noteq> invalid_code"
    by (auto simp: create_handler_def invalid_code_def invalid_target_def split: option.splits)
  then show "snd (create_handler d e (b\<lparr>body_customCode := Some []\<rparr>)) \<noteq> invalid_code"
    using eq by metis
  show "create_handler d e (b\<lparr>body_customCode := Some []\<rparr>) = generate_and_save d e None url"
    if "body_targetUrl b = Some url \<and> url_test url" for url
    using that url_test_nonempty [of url] by (auto simp: create_handler_def gs)
qed

theorem empty_customCode_is_absent_witness:
  "url_test ''https://example.com/docs''
   \<and> create_handler empty_db zero_env
        \<lparr>body_targetUrl = Some ''https://example.com/docs'', body_customCode = Some []\<rparr>
      = generate_and_save empty_db zero_env None ''https://example.com/docs''
   \<and> create_handler empty_db zero_env
        \<lparr>body_targetUrl = Some ''https://example.com/docs'', body_customCode = None\<rparr>
      = generate_and_save empty_db zero_env None ''https://example.com/docs''"
proof -
  have u: "url_test ''https://example.com/docs''"
    by code_simp
  let ?b = "\<lparr>body_targetUrl = Some ''https://example.com/docs'', body_customCode = None\<rparr>"
  have upd: "?b\<lparr>body_customCode := Some []\<rparr>
      = \<lparr>body_targetUrl = Some ''https://example.com/docs'', body_customCode = Some []\<rparr>"
    "?b\<lparr>body_customCode := None\<rparr> = ?b" "body_targetUrl ?b = Some ''https://example.com/docs''"
    by simp_all
  note t = empty_customCode_is_absent [of empty_db zero_env ?b, unfolded upd]
  have a: "create_handler empty_db zero_env
        \<lparr>body_targetUrl = Some ''https://example.com/docs'', body_customCode = Some []\<rparr>
      = generate_and_save empty_db zero_env None ''https://example.com/docs''"
    using t u by blast
  have b: "create_handler empty_db zero_env
        \<lparr>body_targetUrl = Some ''https://example.com/docs'', body_customCode = Some []\<rparr>
      = create_handler empty_db zero_env ?b"
    using t by blast
  show ?thesis
    using u a b by (simp only: simp_thms)
qed

text \<open>
  Claim C5, as amended. When a creation carries a non-empty \<open>customCode\<close> that fails
  \<open>CODE_REGEX\<close>, it answers 400 and the table is unchanged, whether or not a record with
  that code exists (so never 409); with a valid \<open>targetUrl\<close> the answer is the
  invalid-code error.
\<close>

theorem invalid_customCode_rejected_first:
  assumes "body_customCode b = Some c" and "c \<noteq> []" and "\<not> validateCode c"
  shows "fst (create_handler d e b) = d
       \<and> status (snd (create_handler d e b)) = 400
       \<and> (\<forall>url. body_targetUrl b = Some url \<and> url_test url \<longrightarrow> snd (create_handler d e b) = invalid_code)"
  using assms url_test_nonempty
  by (auto simp: create_handler_def invalid_code_def invalid_target_def split: option.splits)

theorem invalid_customCode_rejected_first_witness:
  "findUnique short_db ''ABCD'' \<noteq> None \<and> \<not> validateCode ''ABCD''
   \<and> create_handler short_db zero_env
        \<lparr>body_targetUrl = Some ''https://example.com/docs'', body_customCode = Some ''ABCD''\<rparr>
      = (short_db, invalid_code)
   \<and> status invalid_code = 400"
proof -
  have u: "url_test ''https://example.com/docs''"
    by code_simp
  have v: "\<not> validateCode ''ABCD''"
    by code_simp
  have "''ABCD'' \<noteq> []" by simp
  from invalid_customCode_rejected_first
      [of "\<lparr>body_targetUrl = Some ''https://example.com/docs'', body_customCode = Some ''ABCD''\<rparr>"
          "''ABCD''" short_db zero_env, OF _ this v]
  show ?thesis
    using u v by (auto simp: findUnique_def short_db_def prod_eq_iff)
qed

text \<open>
  Claim C5 as stated fails for the empty string. The table \<open>blank_db\<close> is the one the
  first creation below leaves behind when the generator draws six bytes ff. In it the
  empty code is in use, and it fails \<open>CODE_REGEX\<close>; yet a creation with
  \<open>customCode = ""\<close> answers 201 and adds a record.
\<close>

theorem empty_customCode_counterexample:
  "fst (create_handler empty_db ones_env
        \<lparr>body_targetUrl = Some ''https://example.com/docs'', body_customCode = None\<rparr>) = blank_db
   \<and> findUnique blank_db [] \<noteq> None
   \<and> \<not> validateCode []
   \<and> status (snd (create_handler blank_db zero_env
        \<lparr>body_targetUrl = Some ''https://example.com/docs'', body_customCode = Some []\<rparr>)) = 201
   \<and> map shortCode (rows (fst (create_handler blank_db zero_env
        \<lparr>body_targetUrl = Some ''https://example.com/docs'', body_customCode = Some []\<rparr>)))
       = [[], ''AAAAAA'']"
  by code_simp

subsection \<open>The target pattern\<close>

lemma joined_unit: "joined A {[]} = A" "joined {[]} A = A"
  by (auto simp: joined_def)

lemma rx_match_eps_seq: "rx_match (Seq Eps r) w \<longleftrightarrow> rx_match r w"
  by (simp add: rx_match_denotes joined_unit)

lemma rx_match_never_seq: "\<not> rx_match (Seq Never r) w"
  by (simp add: rx_match_denotes joined_def)

lemma seq_sym:
  "rx_match (rx_seq (Sym p # rs)) w \<longleftrightarrow>
     (case w of [] \<Rightarrow> False | c # v \<Rightarrow> p c \<and> rx_match (rx_seq rs) v)"
  by (cases w) (simp_all add: rx_match_eps_seq rx_match_never_seq)

lemma seq_opt_sym:
  "rx_match (rx_seq (rx_opt (Sym p) # rs)) w \<longleftrightarrow>
     (case w of [] \<Rightarrow> False | c # v \<Rightarrow> p c \<and> rx_match (rx_seq rs) v) \<or> rx_match (rx_seq rs) w"
proof -
  have "denotes (rx_seq (rx_opt (Sym p) # rs))
          = denotes (rx_seq (Sym p # rs)) \<union> denotes (rx_seq rs)"
    by (auto simp: rx_opt_def joined_def)
  then show ?thesis
    using seq_sym [of p rs w] by (simp add: rx_match_denotes)
qed

lemma iter_sym: "w \<in> iter (denotes (Sym p)) \<longleftrightarrow> list_all p w"
proof (induction w)
  case Nil
  then show ?case by (simp add: iter_none)
next
  case (Cons c w)
  have "c # w \<in> iter (denotes (Sym p)) \<longleftrightarrow> p c \<and> w \<in> iter (denotes (Sym p))"
    by (auto simp: cons_in_iter)
  then show ?case using Cons.IH by simp
qed

lemma seq_star_sym: "rx_match (rx_seq [Star (Sym p)]) w \<longleftrightarrow> list_all p w"
  by (simp add: rx_match_denotes joined_unit iter_sym del: denotes.simps(3))

lemma upper_letters:
  "ascii_upper CHR ''h'' = CHR ''H''" "ascii_upper CHR ''t'' = CHR ''T''"
  "ascii_upper CHR ''p'' = CHR ''P''" "ascii_upper CHR ''s'' = CHR ''S''"
  "ascii_upper CHR '':'' = CHR '':''" "ascii_upper CHR ''/'' = CHR ''/''"
  by code_simp+

lemma url_test_unfolded:
  "url_test s \<longleftrightarrow>
    (case s of c1 # c2 # c3 # c4 # v \<Rightarrow>
       ascii_upper c1 = CHR ''H'' \<and> ascii_upper c2 = CHR ''T'' \<and> ascii_upper c3 = CHR ''T''
       \<and> ascii_upper c4 = CHR ''P''
       \<and> ((case v of c5 # c6 # c7 # c8 # x \<Rightarrow>
              ascii_upper c5 = CHR ''S'' \<and> ascii_upper c6 = CHR '':'' \<and> ascii_upper c7 = CHR ''/''
              \<and> ascii_upper c8 = CHR ''/'' \<and> url_rest x
            | _ \<Rightarrow> False)
           \<or> (case v of c6 # c7 # c8 # x \<Rightarrow>
              ascii_upper c6 = CHR '':'' \<and> ascii_upper c7 = CHR ''/''
              \<and> ascii_upper c8 = CHR ''/'' \<and> url_rest x
            | _ \<Rightarrow> False))
     | _ \<Rightarrow> False)"
  unfolding url_test_def URL_REGEX_def ci_def upper_letters
  by (simp only: seq_sym seq_opt_sym seq_star_sym)
     (auto split: list.splits)

lemma generate_and_save_not_invalid_target:
  "snd (generate_and_save d e sc url) \<noteq> invalid_target"
  by (auto simp: generate_and_save_def save_link_eq invalid_target_def generation_exhausted_def
        code_conflict_def split: prod.splits bool.splits option.splits)

lemma save_link_not_invalid_target: "snd (save_link d e c url) \<noteq> invalid_target"
  by (simp add: save_link_eq invalid_target_def code_conflict_def)

lemma invalid_code_not_invalid_target: "invalid_code \<noteq> invalid_target"
  by (simp add: invalid_code_def invalid_target_def)

lemma create_handler_valid_url:
  assumes "body_targetUrl b = Some url" "url_test url"
  shows "snd (create_handler d e b) \<noteq> invalid_target"
  using assms url_test_nonempty [of url]
    generate_and_save_not_invalid_target [of d e _ url] save_link_not_invalid_target [of d e _ url]
    invalid_code_not_invalid_target
  by (auto simp: create_handler_def split: option.splits)

lemma create_handler_invalid_url:
  assumes "body_targetUrl b = None \<or> (\<exists>url. body_targetUrl b = Some url \<and> \<not> url_test url)"
  shows "create_handler d e b = (d, invalid_target)"
  using assms by (auto simp: create_handler_def)

lemma url_test_strict:
  "\<not> second_is_space s \<Longrightarrow> url_test s \<longleftrightarrow> strict_url_shape s"
  unfolding url_test_unfolded strict_url_shape_def second_is_space_def
  by (auto simp: js_dot_def js_space_def non_space_def split: list.splits)

lemma url_test_no_space_http:
  assumes "list_all (\<lambda>c. \<not> js_space c) s \<and> map ascii_upper (take 7 s) = ''HTTP://''"
  shows "url_test s \<longleftrightarrow>
          (case drop 7 s of a # b # t \<Rightarrow> a \<notin> {CHR ''$'', CHR ''.'', CHR ''?'', CHR ''#''} | _ \<Rightarrow> False)"
  using assms unfolding url_test_unfolded
  by (auto simp: url_first_def js_dot_def js_space_def non_space_def list_all_iff
        split: list.splits)

lemma url_test_no_space_https:
  assumes "list_all (\<lambda>c. \<not> js_space c) s \<and> map ascii_upper (take 8 s) = ''HTTPS://''"
  shows "url_test s \<longleftrightarrow>
          (case drop 8 s of a # b # t \<Rightarrow> a \<notin> {CHR ''$'', CHR ''.'', CHR ''?'', CHR ''#''} | _ \<Rightarrow> False)"
  using assms unfolding url_test_unfolded
  by (auto simp: url_first_def js_dot_def js_space_def non_space_def list_all_iff
        split: list.splits)

lemma create_invalid_target_url_test:
  assumes "body_targetUrl b = Some url"
  shows "snd (create_handler d e b) = invalid_target \<longleftrightarrow> \<not> url_test url"
proof (cases "url_test url")
  case True
  then show ?thesis using create_handler_valid_url [OF assms True, of d e] by simp
next
  case False
  then have "create_handler d e b = (d, invalid_target)"
    using assms by (simp add: create_handler_invalid_url)
  then show ?thesis using False by simp
qed

text \<open>
  Claim C4, as amended. A creation answers with the invalid-target error (400) when
  \<open>targetUrl\<close> is missing. For a \<open>targetUrl\<close> whose second character after the scheme
  is not whitespace, it answers with that error exactly when \<open>targetUrl\<close> is not of
  the form: \<open>http://\<close> or \<open>https://\<close> in any letter case, one character that is neither
  whitespace nor one of \<open>$ . ? #\<close>, at least one more character, and no whitespace
  anywhere after the scheme. Whenever it answers with that error the table is
  unchanged. In particular a string without whitespace that starts with the scheme is
  accepted exactly when at least two characters follow the scheme and the first of
  them is none of \<open>$ . ? #\<close>.
\<close>

theorem create_invalid_target_by_design:
  "(body_targetUrl b = None \<longrightarrow> create_handler d e b = (d, invalid_target))
   \<and> (body_targetUrl b = Some url \<and> \<not> second_is_space url \<longrightarrow>
        (snd (create_handler d e b) = invalid_target \<longleftrightarrow> \<not> strict_url_shape url))
   \<and> (snd (create_handler d e b) = invalid_target \<longrightarrow> fst (create_handler d e b) = d)
   \<and> status invalid_target = 400
   \<and> (body_targetUrl b = Some url \<and> list_all (\<lambda>c. \<not> js_space c) url
        \<and> map ascii_upper (take 7 url) = ''HTTP://'' \<longrightarrow>
        (snd (create_handler d e b) \<noteq> invalid_target \<longleftrightarrow>
          (case drop 7 url of a # b # t \<Rightarrow> a \<notin> {CHR ''$'', CHR ''.'', CHR ''?'', CHR ''#''} | _ \<Rightarrow> False)))
   \<and> (body_targetUrl b = Some url \<and> list_all (\<lambda>c. \<not> js_space c) url
        \<and> map ascii_upper (take 8 url) = ''HTTPS://'' \<longrightarrow>
        (snd (create_handler d e b) \<noteq> invalid_target \<longleftrightarrow>
          (case drop 8 url of a # b # t \<Rightarrow> a \<notin> {CHR ''$'', CHR ''.'', CHR ''?'', CHR ''#''} | _ \<Rightarrow> False)))"
proof (intro conjI impI)
  show "create_handler d e b = (d, invalid_target)" if "body_targetUrl b = None"
    using that by (simp add: create_handler_invalid_url)
  show "snd (create_handler d e b) = invalid_target \<longleftrightarrow> \<not> strict_url_shape url"
    if "body_targetUrl b = Some url \<and> \<not> second_is_space url"
    using that create_invalid_target_url_test [of b url d e] url_test_strict [of url] by simp
  show "fst (create_handler d e b) = d" if "snd (create_handler d e b) = invalid_target"
  proof (cases "body_targetUrl b")
    case None
    then show ?thesis by (simp add: create_handler_invalid_url)
  next
    case (Some u)
    then have "\<not> url_test u"
      using that create_invalid_target_url_test [of b u d e] by simp
    then show ?thesis using Some by (simp add: create_handler_invalid_url)
  qed
  show "status invalid_target = 400" by (simp add: invalid_target_def)
  show "snd (create_handler d e b) \<noteq> invalid_target \<longleftrightarrow>
          (case drop 7 url of a # b # t \<Rightarrow> a \<notin> {CHR ''$'', CHR ''.'', CHR ''?'', CHR ''#''} | _ \<Rightarrow> False)"
    if "body_targetUrl b = Some url \<and> list_all (\<lambda>c. \<not> js_space c) url
        \<and> map ascii_upper (take 7 url) = ''HTTP://''"
    using that create_invalid_target_url_test [of b url d e] url_test_no_space_http [of url]
    by simp
  show "snd (create_handler d e b) \<noteq> invalid_target \<longleftrightarrow>
          (case drop 8 url of a # b # t \<Rightarrow> a \<notin> {CHR ''$'', CHR ''.'', CHR ''?'', CHR ''#''} | _ \<Rightarrow> False)"
    if "body_targetUrl b = Some url \<and> list_all (\<lambda>c. \<not> js_space c) url
        \<and> map ascii_upper (take 8 url) = ''HTTPS://''"
    using that create_invalid_target_url_test [of b url d e] url_test_no_space_https [of url]
    by simp
qed

theorem create_invalid_target_by_design_witness:
  "create_handler empty_db zero_env \<lparr>body_targetUrl = None, body_customCode = None\<rparr>
      = (empty_db, invalid_target)
   \<and> \<not> second_is_space ''ftp://example.com'' \<and> \<not> strict_url_shape ''ftp://example.com''
   \<and> create_handler empty_db zero_env
        \<lparr>body_targetUrl = Some ''ftp://example.com'', body_customCode = None\<rparr> = (empty_db, invalid_target)
   \<and> \<not> second_is_space ''https://example.com/docs'' \<and> strict_url_shape ''https://example.com/docs''
   \<and> snd (create_handler empty_db zero_env
        \<lparr>body_targetUrl = Some ''https://example.com/docs'', body_customCode = None\<rparr>) \<noteq> invalid_target
   \<and> list_all (\<lambda>c. \<not> js_space c) ''http://ab'' \<and> map ascii_upper (take 7 ''http://ab'') = ''HTTP://''
   \<and> snd (create_handler empty_db zero_env
        \<lparr>body_targetUrl = Some ''http://ab'', body_customCode = None\<rparr>) \<noteq> invalid_target
   \<and> list_all (\<lambda>c. \<not> js_space c) ''HTTPS://?x'' \<and> map ascii_upper (take 8 ''HTTPS://?x'') = ''HTTPS://''
   \<and> snd (create_handler empty_db zero_env
        \<lparr>body_targetUrl = Some ''HTTPS://?x'', body_customCode = None\<rparr>) = invalid_target"
proof -
  have a: "\<not> second_is_space ''ftp://example.com''" "\<not> strict_url_shape ''ftp://example.com''"
    by code_simp+
  have b: "\<not> second_is_space ''https://example.com/docs''" "strict_url_shape ''https://example.com/docs''"
    by code_simp+
  have c: "list_all (\<lambda>c. \<not> js_space c) ''http://ab''" "map ascii_upper (take 7 ''http://ab'') = ''HTTP://''"
    by code_simp+
  have d: "list_all (\<lambda>c. \<not> js_space c) ''HTTPS://?x''" "map ascii_upper (take 8 ''HTTPS://?x'') = ''HTTPS://''"
    by code_simp+
  show ?thesis
    using create_invalid_target_by_design [of "\<lparr>body_targetUrl = None, body_customCode = None\<rparr>"
        empty_db zero_env "''x''"]
      create_invalid_target_by_design [of "\<lparr>body_targetUrl = Some ''ftp://example.com'', body_customCode = None\<rparr>"
        empty_db zero_env "''ftp://example.com''"]
      create_invalid_target_by_design [of "\<lparr>body_targetUrl = Some ''https://example.com/docs'', body_customCode = None\<rparr>"
        empty_db zero_env "''https://example.com/docs''"]
      create_invalid_target_by_design [of "\<lparr>body_targetUrl = Some ''http://ab'', body_customCode = None\<rparr>"
        empty_db zero_env "''http://ab''"]
      create_invalid_target_by_design [of "\<lparr>body_targetUrl = Some ''HTTPS://?x'', body_customCode = None\<rparr>"
        empty_db zero_env "''HTTPS://?x''"]
      a b c d
    by (simp add: prod_eq_iff)
qed

text \<open>
  Claim C4 as stated fails in both directions: \<open>http://a\<close> has the prefix and no
  whitespace and is refused with the invalid-target error, and \<open>http://a b\<close> contains a
  space and is accepted.
\<close>

theorem url_rule_counterexample:
  "spec_url_rule ''http://a''
   \<and> create_handler empty_db zero_env
        \<lparr>body_targetUrl = Some ''http://a'', body_customCode = None\<rparr> = (empty_db, invalid_target)
   \<and> \<not> spec_url_rule ''http://a b''
   \<and> status (snd (create_handler empty_db zero_env
        \<lparr>body_targetUrl = Some ''http://a b'', body_customCode = None\<rparr>)) = 201"
  by code_simp

end
